theory Spec2Isabelle
  imports Main "HOL-Library.Char_ord" "HOL-Library.List_Lexorder"
begin

section \<open>The directive tree (plugin/generator, \<open>directiveData\<close>)\<close>

text \<open>
  A Go string is a sequence of bytes; it is modelled as \<open>string\<close>, a list of 8-bit
  characters, ordered bytewise (\<open>Char_ord\<close>) and lexicographically
  (\<open>List_Lexorder\<close>), which is the order of Go's \<open><\<close> on strings and of
  \<open>sort.Strings\<close>.

  \<open>directiveData\<close> is the Go struct with its three fields. The field \<open>children\<close> is a Go
  map from keys to nodes. It is modelled as an association list whose keys are distinct
  (\<open>wfDirective\<close> below); the order of the list stands for the order in which a Go
  \<open>range\<close> loop happens to visit the map, which the language leaves unspecified. Trees
  are built by \<open>getOrCreateDirective\<close> without sharing, so a node is modelled as a value.
\<close>

datatype directiveData =
  DirectiveData (name: string) (args: "string list") (children: "(string \<times> directiveData) list")

text \<open>\<open>func (directive *directiveData) addArgs(args ...string)\<close>\<close>

definition addArgs :: "directiveData \<Rightarrow> string list \<Rightarrow> directiveData" where
  "addArgs directive as = DirectiveData (name directive) (args directive @ as) (children directive)"

text \<open>Keys are unique within a parent at every level (a Go map holds one entry for a key).\<close>

function wfDirective :: "directiveData \<Rightarrow> bool" where
  "wfDirective d =
     (distinct (map fst (children d)) \<and> (\<forall>(k, c) \<in> set (children d). wfDirective c))"
  by pat_completeness auto
termination
proof (relation "measure size")
  show "wf (measure (size :: directiveData \<Rightarrow> nat))" by simp
next
  fix d :: directiveData and x :: "string \<times> directiveData" and k c
  assume "x \<in> set (children d)" and "(k, c) = x"
  then have "(k, c) \<in> set (children d)" by simp
  moreover have "(k, c) \<in> set xs \<Longrightarrow> size c < Suc (size_list (size_prod (\<lambda>_. 0) size) xs)"
    for xs :: "(string \<times> directiveData) list"
    by (induction xs) auto
  ultimately have "size c < Suc (size_list (size_prod (\<lambda>_. 0) size) (children d))"
    by blast
  then show "(c, d) \<in> measure size" by (cases d) simp
qed

declare wfDirective.simps [simp del]

definition wfMap :: "(string \<times> directiveData) list \<Rightarrow> bool" where
  "wfMap m = (distinct (map fst m) \<and> (\<forall>(k, c) \<in> set m. wfDirective c))"

section \<open>Serializer: \<open>writeDirectives\<close>, \<open>writeDirective\<close>, \<open>getSortedKeys\<close>\<close>

definition getKeys :: "(string \<times> directiveData) list \<Rightarrow> string list" where
  "getKeys m = map fst m"

definition getSortedKeys :: "(string \<times> directiveData) list \<Rightarrow> string list" where
  "getSortedKeys m = sort (getKeys m)"

text \<open>
  \<open>level\<close> starts at 0 and only grows, so it is a \<open>nat\<close>. The lookup
  \<open>directives[name]\<close> is of a key that \<open>getSortedKeys\<close> has just read from the same
  map, so the \<open>None\<close> branch is never taken.
\<close>

function writeDirective :: "directiveData \<Rightarrow> nat \<Rightarrow> string"
  and writeDirectives :: "(string \<times> directiveData) list \<Rightarrow> nat \<Rightarrow> string" where
  "writeDirective directive level =
     replicate (level * 2) CHR '' ''
     @ (if name directive \<noteq> [] then name directive else [])
     @ (if name directive \<noteq> [] \<and> length (args directive) > 0 then '' '' else [])
     @ (if length (args directive) > 0
        then concat (map (\<lambda>(index, arg). (if index > 0 then '' '' else []) @ arg)
                         (enumerate 0 (args directive)))
        else [])
     @ (if length (children directive) > 0
        then '' {\<newline>''
             @ writeDirectives (children directive) (level + 1)
             @ replicate (level * 2) CHR '' '' @ ''}''
        else [])
     @ ''\<newline>''"
| "writeDirectives directives level =
     concat (map (\<lambda>name. case map_of directives name of
                            Some subdirective \<Rightarrow> writeDirective subdirective level
                          | None \<Rightarrow> [])
                 (getSortedKeys directives))"
  by pat_completeness auto
termination
proof (relation "measure (\<lambda>x. case x of
          Inl (d, l) \<Rightarrow> 2 * size d
        | Inr (ds, l) \<Rightarrow> 2 * size_list (size_prod (\<lambda>_. 0) size) ds + 1)")
  show "wf (measure (\<lambda>x. case x of
          Inl (d :: directiveData, l :: nat) \<Rightarrow> 2 * size d
        | Inr (ds, l :: nat) \<Rightarrow> 2 * size_list (size_prod (\<lambda>_. 0) size) ds + 1))"
    by simp
next
  fix directive :: directiveData and level :: nat
  assume "0 < length (children directive)"
  show "(Inr (children directive, level + 1), Inl (directive, level))
        \<in> measure (\<lambda>x. case x of
              Inl (d, l) \<Rightarrow> 2 * size d
            | Inr (ds, l) \<Rightarrow> 2 * size_list (size_prod (\<lambda>_. 0) size) ds + 1)"
    by (cases directive) simp
next
  fix directives :: "(string \<times> directiveData) list" and level :: nat
    and x :: string and x2 :: directiveData
  assume "map_of directives x = Some x2"
  then have "size x2 < Suc (size_list (size_prod (\<lambda>_. 0) size) directives)"
    by (induction directives) (auto split: if_splits)
  then show "(Inl (x2, level), Inr (directives, level))
        \<in> measure (\<lambda>x. case x of
              Inl (d, l) \<Rightarrow> 2 * size d
            | Inr (ds, l) \<Rightarrow> 2 * size_list (size_prod (\<lambda>_. 0) size) ds + 1)"
    by simp
qed

declare writeDirective.simps [simp del] writeDirectives.simps [simp del]

text \<open>
  Two maps hold the same bindings at every level of the tree: the same keys, bound to
  nodes with the same name, the same arguments and, again, the same bindings below. The
  order of the two association lists plays no part.
\<close>

function sameDirective :: "directiveData \<Rightarrow> directiveData \<Rightarrow> bool" where
  "sameDirective a b =
     (name a = name b \<and> args a = args b
      \<and> set (map fst (children a)) = set (map fst (children b))
      \<and> (\<forall>(k, ca) \<in> set (children a). \<forall>(k', cb) \<in> set (children b).
            k = k' \<longrightarrow> sameDirective ca cb))"
  by pat_completeness auto
termination
proof (relation "measure (\<lambda>(a, b). size a)")
  show "wf (measure (\<lambda>(a :: directiveData, b :: directiveData). size a))" by simp
next
  fix a b :: directiveData and x :: "string \<times> directiveData" and k ca
    and xa :: "string \<times> directiveData" and k' cb
  assume "x \<in> set (children a)" and "(k, ca) = x"
  then have "(k, ca) \<in> set (children a)" by simp
  moreover have "(k, ca) \<in> set xs \<Longrightarrow> size ca < Suc (size_list (size_prod (\<lambda>_. 0) size) xs)"
    for xs :: "(string \<times> directiveData) list"
    by (induction xs) auto
  ultimately have "size ca < Suc (size_list (size_prod (\<lambda>_. 0) size) (children a))"
    by blast
  then show "((ca, cb), (a, b)) \<in> measure (\<lambda>(a, b). size a)" by (cases a) simp
qed

declare sameDirective.simps [simp del]

definition sameMap :: "(string \<times> directiveData) list \<Rightarrow> (string \<times> directiveData) list \<Rightarrow> bool" where
  "sameMap m1 m2 =
     (set (map fst m1) = set (map fst m2)
      \<and> (\<forall>(k, ca) \<in> set m1. \<forall>(k', cb) \<in> set m2. k = k' \<longrightarrow> sameDirective ca cb))"

section \<open>Merge engine: \<open>removeSuffix\<close>, \<open>createUniqueSuffix\<close>, \<open>mergeDirectives\<close>\<close>

text \<open>
  \<open>suffixRegex = regexp.MustCompile("_\\d+$")\<close> and
  \<open>removeSuffix(name) = suffixRegex.ReplaceAllString(name, "")\<close>. In Go's regular
  expressions \<open>\d\<close> is an ASCII digit and \<open>$\<close> is the end of the text. A match starts
  at an underscore that is followed by digits only, and by at least one, up to the end
  of the text; there is at most one such underscore, the one before the last run of
  digits. The match is replaced by the empty string.
\<close>

definition isDigit :: "char \<Rightarrow> bool" where
  "isDigit c = (CHR ''0'' \<le> c \<and> c \<le> CHR ''9'')"

definition removeSuffix :: "string \<Rightarrow> string" where
  "removeSuffix nm =
     (let digits = takeWhile isDigit (rev nm);
          front = dropWhile isDigit (rev nm)
      in if digits \<noteq> [] \<and> front \<noteq> [] \<and> hd front = CHR ''_''
         then rev (tl front) else nm)"

text \<open>
  The Go conversion \<open>string(v)\<close> of an integer \<open>v\<close> does not print the integer: it
  yields the UTF-8 encoding of the code point \<open>v\<close>, and the encoding of U+FFFD (the
  bytes EF BF BD) for a value that is not a valid code point. \<open>encodeRune\<close> follows the
  runtime's \<open>encoderune\<close>, \<open>intstring\<close> the conversion of a 64-bit value, which is first
  checked to fit a rune (a 32-bit signed integer).
\<close>

definition runeError :: nat where
  "runeError = 0xFFFD"

definition encodeRune :: "nat \<Rightarrow> string" where
  "encodeRune r =
     (if r \<le> 0x7F then [char_of r]
      else if r \<le> 0x7FF then [char_of (0xC0 + r div 64), char_of (0x80 + r mod 64)]
      else if r > 0x10FFFF \<or> (0xD800 \<le> r \<and> r \<le> 0xDFFF)
        then [char_of (0xE0 + runeError div 4096), char_of (0x80 + (runeError div 64) mod 64),
              char_of (0x80 + runeError mod 64)]
      else if r \<le> 0xFFFF
        then [char_of (0xE0 + r div 4096), char_of (0x80 + (r div 64) mod 64),
              char_of (0x80 + r mod 64)]
      else [char_of (0xF0 + r div 262144), char_of (0x80 + (r div 4096) mod 64),
            char_of (0x80 + (r div 64) mod 64), char_of (0x80 + r mod 64)])"

definition intstring :: "nat \<Rightarrow> string" where
  "intstring v = (if v > 0x7FFFFFFF then encodeRune runeError else encodeRune v)"

text \<open>
  \<open>createUniqueSuffix\<close> draws \<open>val\<close> from \<open>crypto/rand\<close> (below \<open>math.MaxInt64\<close>) or, when
  that fails, from \<open>math/rand\<close>, and returns \<open>string(val.Uint64())\<close>. The value drawn
  is the argument here; a merge reads its draws from a source \<open>rnd\<close>, the \<open>i\<close>-th call
  getting \<open>rnd i\<close>.
\<close>

definition createUniqueSuffix :: "nat \<Rightarrow> string" where
  "createUniqueSuffix val = intstring val"

text \<open>\<open>directivesAreSimilar\<close>: the same number of arguments, equal index by index.\<close>

definition directivesAreSimilar :: "directiveData \<Rightarrow> directiveData \<Rightarrow> bool" where
  "directivesAreSimilar directiveA directiveB =
     (if length (args directiveA) \<noteq> length (args directiveB) then False
      else list_all (\<lambda>i. args directiveA ! i = args directiveB ! i)
             [0 ..< length (args directiveA)])"

text \<open>
  The body of the loop of \<open>mergeDirectives\<close>, for one entry \<open>(keyB, subDirectiveB)\<close> of
  \<open>directiveB.children\<close>. The state is the children of \<open>directiveA\<close>, which the loop
  updates in place, and the number of suffixes drawn so far. The Go assignment
  \<open>m[k] = v\<close> is \<open>mapAssign\<close>: it replaces the entry of an existing key and adds an
  entry for a new one. \<open>sameRoute\<close> is the condition of the first branch and
  \<open>renamedKey\<close> the key computed in the last.
\<close>

fun mapAssign :: "string \<Rightarrow> directiveData \<Rightarrow> (string \<times> directiveData) list \<Rightarrow> (string \<times> directiveData) list" where
  "mapAssign k v [] = [(k, v)]"
| "mapAssign k v ((k', v') # m) = (if k' = k then (k, v) # m else (k', v') # mapAssign k v m)"

definition sameRoute :: "directiveData \<Rightarrow> directiveData \<Rightarrow> bool" where
  "sameRoute subDirectiveA subDirectiveB =
     (name subDirectiveA = ''proxy'' \<and> name subDirectiveB = ''proxy''
      \<and> length (args subDirectiveA) > 0 \<and> length (args subDirectiveB) > 0
      \<and> hd (args subDirectiveA) = hd (args subDirectiveB))"

definition renamedKey :: "string \<Rightarrow> nat \<Rightarrow> string" where
  "renamedKey keyB val = removeSuffix keyB @ ''_'' @ createUniqueSuffix val"

definition mergeChild ::
  "(nat \<Rightarrow> nat) \<Rightarrow> string \<times> directiveData \<Rightarrow> (string \<times> directiveData) list \<times> nat
     \<Rightarrow> (string \<times> directiveData) list \<times> nat" where
  "mergeChild rnd entry st =
     (case entry of (keyB, subDirectiveB) \<Rightarrow>
      case st of (childrenA, i) \<Rightarrow>
      (case map_of childrenA keyB of
         Some subDirectiveA \<Rightarrow>
           if sameRoute subDirectiveA subDirectiveB
           then (mapAssign keyB (addArgs subDirectiveA (tl (args subDirectiveB))) childrenA, i)
           else if directivesAreSimilar subDirectiveA subDirectiveB
           then (childrenA, i)
           else (mapAssign (renamedKey keyB (rnd i)) subDirectiveB childrenA, Suc i)
       | None \<Rightarrow> (mapAssign keyB subDirectiveB childrenA, i)))"

text \<open>
  \<open>mergeDirectives\<close>: a nil pointer is \<open>None\<close>. The result is the merged tree together
  with the number of suffixes drawn.
\<close>

definition mergeDirectives ::
  "(nat \<Rightarrow> nat) \<Rightarrow> nat \<Rightarrow> directiveData option \<Rightarrow> directiveData option
     \<Rightarrow> directiveData option \<times> nat" where
  "mergeDirectives rnd i directiveA directiveB =
     (case directiveA of
        None \<Rightarrow> (directiveB, i)
      | Some a \<Rightarrow>
         (case directiveB of
            None \<Rightarrow> (Some a, i)
          | Some b \<Rightarrow>
              (case fold (mergeChild rnd) (children b) (children a, i) of
                 (childrenA, i') \<Rightarrow> (Some (DirectiveData (name a) (args a) childrenA), i'))))"

text \<open>
  The lines of \<open>GenerateCaddyFile\<close> that collect the directives of the containers and
  write them. \<open>directives\<close> starts empty; every entry \<open>(k, directive)\<close> of the map that
  \<open>getContainerDirectives\<close> returns for a container is merged into it with
  \<open>directives[k] = mergeDirectives(directives[k], directive)\<close>, and
  \<open>writeDirectives(&caddyfileBuffer, directives, 0)\<close> writes the result. \<open>containers\<close>
  lists the maps of the containers in the order of \<open>ContainerList\<close>, each map in the
  order in which its \<open>range\<close> loop visits it. \<open>mergeDirectives\<close> returns nil only for two
  nil arguments, so the \<open>None\<close> branch of \<open>mergeInto\<close> is never taken. With no Caddyfile
  path set and no swarm available nothing else is written to the buffer, and
  \<open>containersCaddyfile\<close> is the first result of \<open>GenerateCaddyFile\<close>.
\<close>

definition mergeInto ::
  "(nat \<Rightarrow> nat) \<Rightarrow> string \<times> directiveData \<Rightarrow> (string \<times> directiveData) list \<times> nat
     \<Rightarrow> (string \<times> directiveData) list \<times> nat" where
  "mergeInto rnd entry st =
     (case entry of (k, directive) \<Rightarrow>
      case st of (directives, i) \<Rightarrow>
      (case mergeDirectives rnd i (map_of directives k) (Some directive) of
         (Some merged, i') \<Rightarrow> (mapAssign k merged directives, i')
       | (None, i') \<Rightarrow> (directives, i')))"

definition mergeContainers ::
  "(nat \<Rightarrow> nat) \<Rightarrow> (string \<times> directiveData) list list \<Rightarrow> (string \<times> directiveData) list" where
  "mergeContainers rnd containers =
     fst (fold (\<lambda>containerDirectives st. fold (mergeInto rnd) containerDirectives st)
               containers ([], 0))"

definition containersCaddyfile ::
  "(nat \<Rightarrow> nat) \<Rightarrow> (string \<times> directiveData) list list \<Rightarrow> string" where
  "containersCaddyfile rnd containers = writeDirectives (mergeContainers rnd containers) 0"

text \<open>The tree \<open>B\<close> without its child at key \<open>k\<close>.\<close>

definition withoutChild :: "string \<Rightarrow> directiveData \<Rightarrow> directiveData" where
  "withoutChild k b = DirectiveData (name b) (args b) (filter (\<lambda>e. fst e \<noteq> k) (children b))"

text \<open>The decimal numeral of a natural number, as \<open>strconv.FormatUint(v, 10)\<close> prints it.\<close>

fun decimal :: "nat \<Rightarrow> string" where
  "decimal n = (if n < 10 then [char_of (48 + n)] else decimal (n div 10) @ [char_of (48 + n mod 10)])"

declare decimal.simps [simp del]

section \<open>Label parser: \<open>processVariables\<close>, \<open>parseArgs\<close>, \<open>regSplit\<close>\<close>

text \<open>
  \<open>processVariables\<close> calls the template library: \<open>template.New("").Parse(content)\<close>
  is the parameter \<open>parse\<close> (\<open>Inl\<close> its error), and \<open>t.Execute(&writer, data)\<close>, whose
  error the code drops, the parameter \<open>execute\<close>, giving what was written. The result is
  the returned string and the lines logged.
\<close>

definition processVariables ::
  "(string \<Rightarrow> string + 't) \<Rightarrow> ('t \<Rightarrow> 'd \<Rightarrow> string) \<Rightarrow> 'd \<Rightarrow> string \<Rightarrow> string \<times> string list" where
  "processVariables parse execute data content =
     (case parse content of
        Inl err \<Rightarrow> (content, [err])
      | Inr t \<Rightarrow> (execute t data, []))"

text \<open>
  \<open>regSplit(text, "\\s+")\<close>. In Go's regular expressions \<open>\s\<close> is one of tab, newline,
  form feed, carriage return and space. \<open>FindAllStringIndex\<close> for \<open>\s+\<close> returns the
  successive maximal runs of such characters as pairs (start, end) of byte offsets;
  \<open>wsIndexes i text\<close> lists them for a text that starts at offset \<open>i\<close>.
\<close>

definition isSpace :: "char \<Rightarrow> bool" where
  "isSpace c = (c = CHR 0x09 \<or> c = CHR 0x0A \<or> c = CHR 0x0C \<or> c = CHR 0x0D \<or> c = CHR '' '')"

function wsIndexes :: "nat \<Rightarrow> string \<Rightarrow> (nat \<times> nat) list" where
  "wsIndexes i [] = []"
| "wsIndexes i (c # cs) =
     (if isSpace c
      then (i, i + 1 + length (takeWhile isSpace cs))
           # wsIndexes (i + 1 + length (takeWhile isSpace cs)) (dropWhile isSpace cs)
      else wsIndexes (i + 1) cs)"
  by pat_completeness auto
termination
  by (relation "measure (\<lambda>(i, text). length text)")
     (auto simp: less_Suc_eq_le length_dropWhile_le)

text \<open>The Go slice expression \<open>text[lo:hi]\<close>, for \<open>lo \<le> hi \<le> len(text)\<close>.\<close>

definition slice :: "string \<Rightarrow> nat \<Rightarrow> nat \<Rightarrow> string" where
  "slice text lo hi = take (hi - lo) (drop lo text)"

definition regSplit :: "(string \<Rightarrow> (nat \<times> nat) list) \<Rightarrow> string \<Rightarrow> string list" where
  "regSplit findAllStringIndex text =
     (let indexes = findAllStringIndex text in
      case fold (\<lambda>element (result, laststart).
                   (result @ [slice text laststart (fst element)], snd element))
                indexes ([], 0) of
        (result, laststart) \<Rightarrow> result @ [slice text laststart (length text)])"

definition parseArgs :: "string \<Rightarrow> string list" where
  "parseArgs text =
     (let args = regSplit (wsIndexes 0) text in
      if length args = 1 \<and> args ! 0 = [] then [] else args)"

text \<open>
  The maximal runs of non-whitespace characters of a text, in order (what
  \<open>strings.Fields\<close> returns): the words of the spec's sentence on argument splitting.
\<close>

function nonSpaceRuns :: "string \<Rightarrow> string list" where
  "nonSpaceRuns [] = []"
| "nonSpaceRuns (c # cs) =
     (if isSpace c then nonSpaceRuns cs
      else (c # takeWhile (\<lambda>x. \<not> isSpace x) cs)
           # nonSpaceRuns (dropWhile (\<lambda>x. \<not> isSpace x) cs))"
  by pat_completeness auto
termination
  by (relation "measure length") (auto simp: less_Suc_eq_le length_dropWhile_le)

text \<open>
  The same splitting without byte offsets, for the proofs: \<open>pieces cur rest\<close> are the
  pieces of a text of which \<open>cur\<close>, free of whitespace, has been read into the current
  piece and \<open>rest\<close> is still to be read. \<open>splitStep\<close> is the body of the loop of
  \<open>regSplit\<close>, and \<open>trailing\<close> the empty piece after a text that ends in whitespace.
\<close>

function pieces :: "string \<Rightarrow> string \<Rightarrow> string list" where
  "pieces cur [] = [cur]"
| "pieces cur (c # cs) =
     (if isSpace c then cur # pieces [] (dropWhile isSpace cs) else pieces (cur @ [c]) cs)"
  by pat_completeness auto
termination
  by (relation "measure (\<lambda>(cur, rest). length rest)")
     (auto simp: less_Suc_eq_le length_dropWhile_le)

definition splitStep :: "string \<Rightarrow> nat \<times> nat \<Rightarrow> string list \<times> nat \<Rightarrow> string list \<times> nat" where
  "splitStep text = (\<lambda>element (result, laststart).
                   (result @ [slice text laststart (fst element)], snd element))"

definition trailing :: "string \<Rightarrow> string list" where
  "trailing t = (if isSpace (last t) then [[]] else [])"

section \<open>Availability prober: \<open>checkSwarmAvailability\<close>\<close>

text \<open>
  The two fields of \<open>CaddyfileGenerator\<close> that the prober reads and writes. A
  \<open>time.Time\<close> is the number of nanoseconds since Go's zero time, so \<open>0\<close> is the zero
  value and \<open>IsZero\<close> is \<open>= 0\<close>. The result of \<open>dockerClient.Info\<close> is \<open>Inl\<close> its error
  or \<open>Inr\<close> the field \<open>Swarm.LocalNodeState\<close>; the log lines written are returned.
\<close>

record CaddyfileGenerator =
  swarmIsAvailable :: bool
  swarmIsAvailableTime :: nat

definition LocalNodeStateActive :: string where
  "LocalNodeStateActive = ''active''"

definition swarmAvailabilityCacheInterval :: nat where
  "swarmAvailabilityCacheInterval = 60 * 1000000000"

definition showBool :: "bool \<Rightarrow> string" where
  "showBool b = (if b then ''true'' else ''false'')"

definition checkSwarmAvailability ::
  "CaddyfileGenerator \<Rightarrow> bool \<Rightarrow> string + string \<Rightarrow> CaddyfileGenerator \<times> string list" where
  "checkSwarmAvailability g isFirstCheck info =
     (case info of
        Inr localNodeState \<Rightarrow>
          (let newSwarmIsAvailable = (localNodeState = LocalNodeStateActive) in
           (g\<lparr>swarmIsAvailable := newSwarmIsAvailable\<rparr>,
            if isFirstCheck \<or> newSwarmIsAvailable \<noteq> swarmIsAvailable g
            then [''[INFO] Swarm is available: '' @ showBool newSwarmIsAvailable] else []))
      | Inl err \<Rightarrow>
          (g\<lparr>swarmIsAvailable := False\<rparr>,
           [''[ERROR] Swarm availability check failed: '' @ err]))"

text \<open>
  The lines of \<open>GenerateCaddyFile\<close> that run the probe: at time \<open>now\<close>, when the cached
  answer is older than the interval. \<open>info\<close> is what \<open>Info\<close> returns if it is called.
\<close>

definition probeIfStale ::
  "CaddyfileGenerator \<Rightarrow> nat \<Rightarrow> string + string \<Rightarrow> CaddyfileGenerator \<times> string list" where
  "probeIfStale g now info =
     (if now - swarmIsAvailableTime g > swarmAvailabilityCacheInterval
      then (case checkSwarmAvailability g (swarmIsAvailableTime g = 0) info of
              (g', logs) \<Rightarrow> (g'\<lparr>swarmIsAvailableTime := now\<rparr>, logs))
      else (g, []))"

text \<open>\<open>CreateGenerator\<close> leaves both fields at their zero values.\<close>

definition CreateGenerator :: CaddyfileGenerator where
  "CreateGenerator = \<lparr>swarmIsAvailable = False, swarmIsAvailableTime = 0\<rparr>"

section \<open>Reconciliation: \<open>DockerLoader.update\<close>\<close>

text \<open>
  The fields of \<open>DockerLoader\<close> that \<open>update\<close> reads and writes. A byte slice is a
  \<open>string\<close>; \<open>bytes.Equal\<close> and \<open>len\<close> do not tell a nil slice from an empty one, and
  neither does the model. What \<open>update\<close> does to the outside is returned as a list of
  effects, in order.
\<close>

record CaddyfileInput =
  ServerTypeName :: string
  Contents :: string

record DockerLoader =
  skipEvents :: bool
  input :: CaddyfileInput
  processCaddyfile :: bool
  previousCaddyfile :: string
  previousLogs :: string

datatype effect =
  TimerReset
  | LogPrint string
  | ValidateAndExecuteDirectives CaddyfileInput
  | ReloadCaddy

text \<open>\<open>CreateDockerLoader\<close>, with the zero values of the other fields.\<close>

definition CreateDockerLoader :: DockerLoader where
  "CreateDockerLoader =
     \<lparr>skipEvents = False, input = \<lparr>ServerTypeName = ''http'', Contents = []\<rparr>,
      processCaddyfile = False, previousCaddyfile = [], previousLogs = []\<rparr>"

text \<open>
  \<open>update\<close>. The result of \<open>generator.GenerateCaddyFile()\<close> of this cycle is the
  argument \<open>generated = (caddyfile, logs, err)\<close>. \<open>ProcessCaddyfile\<close> is defined in
  another file of the repository and \<open>validate\<close> is the library function
  \<open>caddy.ValidateAndExecuteDirectives\<close> (\<open>None\<close> for a nil error); both are parameters.
\<close>

definition update ::
  "(string \<Rightarrow> string) \<Rightarrow> (CaddyfileInput \<Rightarrow> string option) \<Rightarrow> DockerLoader \<Rightarrow> bool
     \<Rightarrow> string \<times> string \<times> string option \<Rightarrow> bool \<times> DockerLoader \<times> effect list" where
  "update ProcessCaddyfile validate dockerLoader reloadIfChanged generated =
     (case generated of (caddyfile, logs, err) \<Rightarrow>
      let dl0 = dockerLoader\<lparr>skipEvents := False\<rparr> in
      case err of
        Some e \<Rightarrow>
          (False, dl0,
           [TimerReset,
            LogPrint (''[INFO] ignoring docker swarm error, leaving caddyfile as is: '' @ e)])
      | None \<Rightarrow>
          let caddyfileChanged = (previousCaddyfile dockerLoader \<noteq> caddyfile);
              logsChanged = (previousLogs dockerLoader \<noteq> logs);
              dl1 = dl0\<lparr>previousCaddyfile := caddyfile, previousLogs := logs\<rparr>;
              fx1 = TimerReset # (if logsChanged \<or> caddyfileChanged then [LogPrint logs] else [])
          in if \<not> caddyfileChanged then (False, dl1, fx1)
             else
               let fx2 = fx1 @ (if processCaddyfile dockerLoader
                                then [LogPrint ''[INFO] Processing caddyfile''] else []);
                   caddyfile2 = (if processCaddyfile dockerLoader
                                 then ProcessCaddyfile caddyfile else caddyfile);
                   caddyfile3 = (if length caddyfile2 = 0 then ''# Empty caddyfile'' else caddyfile2);
                   newInput = \<lparr>ServerTypeName = ''http'', Contents = caddyfile3\<rparr>
               in case validate newInput of
                    Some e \<Rightarrow>
                      (True, dl1,
                       fx2 @ [ValidateAndExecuteDirectives newInput,
                              LogPrint (''[ERROR] CaddyFile error: '' @ e),
                              LogPrint (''[INFO] Wrong CaddyFile:\<newline>'' @ caddyfile3)])
                  | None \<Rightarrow>
                      (True, dl1\<lparr>input := newInput\<rparr>,
                       fx2 @ [ValidateAndExecuteDirectives newInput,
                              LogPrint (''[INFO] New CaddyFile:\<newline>'' @ caddyfile3)]
                           @ (if reloadIfChanged then [ReloadCaddy] else [])))"

text \<open>The document that a list of effects hands to the validate-and-apply collaborator.\<close>

definition validated :: "effect list \<Rightarrow> CaddyfileInput list" where
  "validated fx = concat (map (\<lambda>e. case e of ValidateAndExecuteDirectives doc \<Rightarrow> [doc] | _ \<Rightarrow> []) fx)"

section \<open>Serializer: a node without name and arguments\<close>

lemma writeDirectives_single:
  "writeDirectives [(k, d)] level = writeDirective d level"
  by (simp add: writeDirectives.simps getSortedKeys_def getKeys_def)

lemma writeDirective_leaf:
  "writeDirective (DirectiveData n [] []) level
     = replicate (level * 2) CHR '' '' @ n @ ''\<newline>''"
  by (simp add: writeDirective.simps)

text \<open>
  Claim C6, as the code has it. A node with an empty name, no arguments and at least one
  child is written like every other node with children: the indentation of its level, then
  an opening brace after a space, the children one level deeper, the indentation again and
  the closing brace. The children are not written at the node's own level.
\<close>

theorem writeDirective_nameless_block:
  assumes "name d = []" and "args d = []" and "children d \<noteq> []"
  shows "writeDirective d level
           = replicate (level * 2) CHR '' '' @ '' {\<newline>''
             @ writeDirectives (children d) (level + 1)
             @ replicate (level * 2) CHR '' '' @ ''}\<newline>''"
  using assms by (simp add: writeDirective.simps)

theorem writeDirective_nameless_block_witness:
  "writeDirective (DirectiveData [] [] [(''gzip'', DirectiveData ''gzip'' [] [])]) 1
     = ''   {\<newline>    gzip\<newline>  }\<newline>''"
proof -
  have "writeDirective (DirectiveData [] [] [(''gzip'', DirectiveData ''gzip'' [] [])]) 1
          = replicate (1 * 2) CHR '' '' @ '' {\<newline>''
            @ writeDirectives (children (DirectiveData [] [] [(''gzip'', DirectiveData ''gzip'' [] [])])) (1 + 1)
            @ replicate (1 * 2) CHR '' '' @ ''}\<newline>''"
    by (rule writeDirective_nameless_block) simp_all
  then show ?thesis
    by (simp add: writeDirectives_single writeDirective_leaf numeral_2_eq_2)
qed

text \<open>
  Claim C6 as the spec states it fails: the node below, at level 0, is not written as its
  children at level 0.
\<close>

theorem writeDirective_nameless_not_flattened:
  "writeDirective (DirectiveData [] [] [(''gzip'', DirectiveData ''gzip'' [] [])]) 0
     = '' {\<newline>  gzip\<newline>}\<newline>''
   \<and> writeDirectives [(''gzip'', DirectiveData ''gzip'' [] [])] 0 = ''gzip\<newline>''
   \<and> writeDirective (DirectiveData [] [] [(''gzip'', DirectiveData ''gzip'' [] [])]) 0
       \<noteq> writeDirectives [(''gzip'', DirectiveData ''gzip'' [] [])] 0"
  by (simp add: writeDirective.simps writeDirectives_single numeral_2_eq_2)

section \<open>Label parser: a value that is not a template\<close>

text \<open>
  Claim C10. When the label value does not parse as a template, \<open>processVariables\<close>
  returns the value itself, having logged the error; its result is a string and carries
  no error, so the caller, \<open>convertLabelsToDirectives\<close>, goes on and takes as arguments
  what \<open>parseArgs\<close> makes of the raw value.
\<close>

theorem processVariables_parse_failure:
  assumes "parse content = Inl err"
  shows "processVariables parse execute data content = (content, [err])
         \<and> parseArgs (fst (processVariables parse execute data content)) = parseArgs content"
  using assms by (simp add: processVariables_def)

theorem processVariables_parse_failure_witness:
  "processVariables (\<lambda>c. if c = ''{{'' then Inl ''template: unclosed action'' else Inr c)
     (\<lambda>t d. t) () ''{{'' = (''{{'', [''template: unclosed action''])
   \<and> parseArgs (fst (processVariables
         (\<lambda>c. if c = ''{{'' then Inl ''template: unclosed action'' else Inr c)
         (\<lambda>t d. t) () ''{{'')) = parseArgs ''{{''"
  by (rule processVariables_parse_failure) simp

section \<open>Reconciliation: unchanged output, rejected output, empty output\<close>

lemma validated_append [simp]: "validated (xs @ ys) = validated xs @ validated ys"
  by (simp add: validated_def)

lemma validated_simps [simp]:
  "validated [] = []"
  "validated (TimerReset # fx) = validated fx"
  "validated (LogPrint l # fx) = validated fx"
  "validated (ReloadCaddy # fx) = validated fx"
  "validated (ValidateAndExecuteDirectives doc # fx) = doc # validated fx"
  by (simp_all add: validated_def)

lemma update_unchanged:
  "update P v dl r (previousCaddyfile dl, logs, None)
     = (False, dl\<lparr>skipEvents := False, previousCaddyfile := previousCaddyfile dl, previousLogs := logs\<rparr>,
        TimerReset # (if previousLogs dl \<noteq> logs then [LogPrint logs] else []))"
  by (simp add: update_def Let_def)

lemma update_previousCaddyfile:
  "previousCaddyfile (fst (snd (update P v dl r (caddyfile, logs, None)))) = caddyfile"
  by (simp add: update_def Let_def split: option.splits)

lemma update_validated_cases:
  "validated (snd (snd (update P v dl r (caddyfile, logs, None))))
     = (if previousCaddyfile dl \<noteq> caddyfile
        then [\<lparr>ServerTypeName = ''http'',
               Contents = (if (if processCaddyfile dl then P caddyfile else caddyfile) = []
                           then ''# Empty caddyfile''
                           else (if processCaddyfile dl then P caddyfile else caddyfile))\<rparr>]
        else [])"
  by (simp add: update_def Let_def split: option.splits)

lemma update_rejected_input:
  assumes "previousCaddyfile dl \<noteq> caddyfile"
    and "v \<lparr>ServerTypeName = ''http'',
            Contents = (if (if processCaddyfile dl then P caddyfile else caddyfile) = []
                        then ''# Empty caddyfile''
                        else (if processCaddyfile dl then P caddyfile else caddyfile))\<rparr> = Some e"
  shows "input (fst (snd (update P v dl r (caddyfile, logs, None)))) = input dl"
  using assms by (simp add: update_def Let_def)

text \<open>
  Claim C5. In a cycle in which the document handed to \<open>ValidateAndExecuteDirectives\<close> is
  rejected, the loader's input keeps its value, \<open>previousCaddyfile\<close> becomes the bytes
  generated in this cycle all the same (they are the contents of the rejected document,
  unless \<open>ProcessCaddyfile\<close> or the placeholder for an empty output came between), and a
  following cycle that generates the same bytes hands no document to validation.
\<close>

theorem update_rejected_keeps_input:
  assumes "doc \<in> set (validated (snd (snd (update P v dl r (caddyfile, logs, None)))))"
    and "v doc = Some e"
  shows "input (fst (snd (update P v dl r (caddyfile, logs, None)))) = input dl
         \<and> previousCaddyfile (fst (snd (update P v dl r (caddyfile, logs, None)))) = caddyfile
         \<and> (\<not> processCaddyfile dl \<and> caddyfile \<noteq> [] \<longrightarrow> Contents doc = caddyfile)
         \<and> validated (snd (snd (update P' v' (fst (snd (update P v dl r (caddyfile, logs, None))))
                                    r' (caddyfile, logs', None)))) = []"
proof -
  have changed: "previousCaddyfile dl \<noteq> caddyfile"
    using assms(1) by (auto simp: update_validated_cases split: if_splits)
  then have doc: "doc = \<lparr>ServerTypeName = ''http'',
            Contents = (if (if processCaddyfile dl then P caddyfile else caddyfile) = []
                        then ''# Empty caddyfile''
                        else (if processCaddyfile dl then P caddyfile else caddyfile))\<rparr>"
    using assms(1) by (simp add: update_validated_cases)
  then have same: "\<not> processCaddyfile dl \<and> caddyfile \<noteq> [] \<longrightarrow> Contents doc = caddyfile"
    by simp
  from doc assms(2) changed
  have kept: "input (fst (snd (update P v dl r (caddyfile, logs, None)))) = input dl"
    by (simp add: update_rejected_input)
  have prev: "previousCaddyfile (fst (snd (update P v dl r (caddyfile, logs, None)))) = caddyfile"
    by (rule update_previousCaddyfile)
  have "validated (snd (snd (update P' v' (fst (snd (update P v dl r (caddyfile, logs, None))))
                                    r' (caddyfile, logs', None)))) = []"
    using prev by (simp add: update_validated_cases)
  with kept prev same show ?thesis by blast
qed

theorem update_rejected_keeps_input_witness:
  "input (fst (snd (update id (\<lambda>d. Some ''parse error'') CreateDockerLoader True
                      (''a.com {'', ''log'', None)))) = input CreateDockerLoader
   \<and> previousCaddyfile (fst (snd (update id (\<lambda>d. Some ''parse error'') CreateDockerLoader True
                      (''a.com {'', ''log'', None)))) = ''a.com {''
   \<and> validated (snd (snd (update id (\<lambda>d. Some ''parse error'')
                      (fst (snd (update id (\<lambda>d. Some ''parse error'') CreateDockerLoader True
                                   (''a.com {'', ''log'', None))))
                      True (''a.com {'', ''log'', None)))) = []"
proof -
  have handed: "\<lparr>ServerTypeName = ''http'', Contents = ''a.com {''\<rparr>
          \<in> set (validated (snd (snd (update id (\<lambda>d. Some ''parse error'') CreateDockerLoader True
                      (''a.com {'', ''log'', None)))))"
    by (simp add: update_validated_cases CreateDockerLoader_def)
  have rejected: "(\<lambda>d. Some ''parse error'') \<lparr>ServerTypeName = ''http'', Contents = ''a.com {''\<rparr>
          = Some ''parse error''"
    by simp
  from update_rejected_keeps_input [OF handed rejected,
         where P' = id and v' = "\<lambda>d. Some ''parse error''" and r' = True and logs' = "''log''"]
  show ?thesis by blast
qed

text \<open>
  Claim C9. The output of a cycle is the generated bytes, passed through
  \<open>ProcessCaddyfile\<close> when that option is on. When it is empty, the only document that
  the cycle hands to \<open>ValidateAndExecuteDirectives\<close> is the placeholder
  \<open># Empty caddyfile\<close>, and the cycle hands it over whenever the generated bytes differ
  from \<open>previousCaddyfile\<close>; an empty document is never handed over.
\<close>

theorem update_empty_output_placeholder:
  assumes "(if processCaddyfile dl then P caddyfile else caddyfile) = []"
  shows "validated (snd (snd (update P v dl r (caddyfile, logs, None))))
           = (if previousCaddyfile dl \<noteq> caddyfile
              then [\<lparr>ServerTypeName = ''http'', Contents = ''# Empty caddyfile''\<rparr>] else [])
         \<and> (\<forall>doc \<in> set (validated (snd (snd (update P v dl r (caddyfile, logs, None))))).
               Contents doc = ''# Empty caddyfile'')"
  using assms by (simp add: update_validated_cases)

theorem update_empty_output_placeholder_witness:
  "validated (snd (snd (update id (\<lambda>d. None) (CreateDockerLoader\<lparr>previousCaddyfile := ''a.com''\<rparr>)
          True ([], ''log'', None))))
     = [\<lparr>ServerTypeName = ''http'', Contents = ''# Empty caddyfile''\<rparr>]"
proof -
  have "(if processCaddyfile (CreateDockerLoader\<lparr>previousCaddyfile := ''a.com''\<rparr>) then id [] else [])
          = ([] :: string)"
    by simp
  from update_empty_output_placeholder
         [where dl = "CreateDockerLoader\<lparr>previousCaddyfile := ''a.com''\<rparr>" and P = id
            and caddyfile = "[]" and v = "\<lambda>d. None" and r = True and logs = "''log''", OF this]
  show ?thesis by (simp add: CreateDockerLoader_def)
qed

lemma update_never_hands_empty:
  "doc \<in> set (validated (snd (snd (update P v dl r (caddyfile, logs, None))))) \<Longrightarrow> Contents doc \<noteq> []"
  by (auto simp: update_validated_cases split: if_splits)

section \<open>Availability prober: when a probe logs\<close>

lemma checkSwarmAvailability_logs:
  "(snd (checkSwarmAvailability g isFirstCheck info) \<noteq> [])
     = (isl info \<or> isFirstCheck
        \<or> swarmIsAvailable (fst (checkSwarmAvailability g isFirstCheck info)) \<noteq> swarmIsAvailable g)"
  by (cases info) (auto simp: checkSwarmAvailability_def Let_def)

text \<open>
  A probe that runs records a time that is not the zero time, so the probe time is zero
  exactly as long as no probe has run.
\<close>

lemma probeIfStale_time:
  "swarmIsAvailableTime (fst (probeIfStale g now info))
     = (if now - swarmIsAvailableTime g > swarmAvailabilityCacheInterval
        then now else swarmIsAvailableTime g)"
  by (simp add: probeIfStale_def split_beta)

lemma probeIfStale_time_not_zero:
  "now - swarmIsAvailableTime g > swarmAvailabilityCacheInterval
     \<Longrightarrow> swarmIsAvailableTime (fst (probeIfStale g now info)) \<noteq> 0"
  by (auto simp: probeIfStale_time)

text \<open>
  Claim C8, as the code has it. A cycle writes a probe log line exactly when the probe
  runs (the cached answer is older than the interval) and its \<open>Info\<close> call fails, or
  it is the first probe, or its outcome changes the cached availability. So a probe that
  succeeds writes a line only when it is the first or flips the cached value, and
  repeated successful probes with the same outcome write nothing; a probe whose \<open>Info\<close>
  call fails writes its error line every time.
\<close>

theorem probeIfStale_logs_iff:
  "(snd (probeIfStale g now info) \<noteq> [])
     = (now - swarmIsAvailableTime g > swarmAvailabilityCacheInterval
        \<and> (isl info \<or> swarmIsAvailableTime g = 0
             \<or> swarmIsAvailable (fst (probeIfStale g now info)) \<noteq> swarmIsAvailable g))"
proof (cases "now - swarmIsAvailableTime g > swarmAvailabilityCacheInterval")
  case True
  then have "snd (probeIfStale g now info)
               = snd (checkSwarmAvailability g (swarmIsAvailableTime g = 0) info)"
    and "swarmIsAvailable (fst (probeIfStale g now info))
               = swarmIsAvailable (fst (checkSwarmAvailability g (swarmIsAvailableTime g = 0) info))"
    by (simp_all add: probeIfStale_def split_beta)
  with True show ?thesis
    by (simp add: checkSwarmAvailability_logs)
next
  case False
  then show ?thesis by (simp add: probeIfStale_def)
qed

theorem probeIfStale_logs_iff_witness:
  "snd (probeIfStale \<lparr>swarmIsAvailable = True, swarmIsAvailableTime = 1000000000000000000\<rparr>
          1000000061000000000 (Inr ''active'')) = []
   \<and> snd (probeIfStale \<lparr>swarmIsAvailable = True, swarmIsAvailableTime = 1000000000000000000\<rparr>
          1000000061000000000 (Inr ''inactive''))
       = [''[INFO] Swarm is available: false'']"
  using probeIfStale_logs_iff
          [of "\<lparr>swarmIsAvailable = True, swarmIsAvailableTime = 1000000000000000000\<rparr>"
              1000000061000000000 "Inr ''active''"]
        probeIfStale_logs_iff
          [of "\<lparr>swarmIsAvailable = True, swarmIsAvailableTime = 1000000000000000000\<rparr>"
              1000000061000000000 "Inr ''inactive''"]
  by (simp add: probeIfStale_def checkSwarmAvailability_def LocalNodeStateActive_def
                swarmAvailabilityCacheInterval_def showBool_def)

text \<open>
  Claim C8 as the spec states it fails. From a new generator, two probes a little more
  than a minute apart whose \<open>Info\<close> calls both fail: the second is not the first probe
  (the probe time is set), it leaves the cached availability as it was, and it writes a
  log line.
\<close>

theorem repeated_failure_logs_again:
  "swarmIsAvailableTime (fst (probeIfStale CreateGenerator 1000000000000000000 (Inl ''down''))) \<noteq> 0
   \<and> swarmIsAvailable (fst (probeIfStale
         (fst (probeIfStale CreateGenerator 1000000000000000000 (Inl ''down'')))
         1000000061000000000 (Inl ''down'')))
       = swarmIsAvailable (fst (probeIfStale CreateGenerator 1000000000000000000 (Inl ''down'')))
   \<and> snd (probeIfStale
         (fst (probeIfStale CreateGenerator 1000000000000000000 (Inl ''down'')))
         1000000061000000000 (Inl ''down''))
       = [''[ERROR] Swarm availability check failed: down'']"
  by (simp add: probeIfStale_def CreateGenerator_def checkSwarmAvailability_def
                swarmAvailabilityCacheInterval_def)

section \<open>Serializer: the output does not depend on the order of the maps\<close>

lemma wfDirective_node:
  "wfDirective (DirectiveData n as cs)
     = (distinct (map fst cs) \<and> (\<forall>(k, c) \<in> set cs. wfDirective c))"
  by (simp add: wfDirective.simps [of "DirectiveData n as cs"])

lemma sameDirective_node:
  "sameDirective (DirectiveData n as cs) (DirectiveData n' as' cs')
     = (n = n' \<and> as = as' \<and> set (map fst cs) = set (map fst cs')
        \<and> (\<forall>(k, ca) \<in> set cs. \<forall>(k', cb) \<in> set cs'. k = k' \<longrightarrow> sameDirective ca cb))"
  by (simp add: sameDirective.simps [of "DirectiveData n as cs"])

lemma writeDirective_node:
  "writeDirective (DirectiveData n as cs) level
     = replicate (level * 2) CHR '' '' @ n
       @ (if n \<noteq> [] \<and> as \<noteq> [] then '' '' else [])
       @ concat (map (\<lambda>(index, arg). (if index > 0 then '' '' else []) @ arg) (enumerate 0 as))
       @ (if cs \<noteq> []
          then '' {\<newline>'' @ writeDirectives cs (level + 1) @ replicate (level * 2) CHR '' '' @ ''}''
          else [])
       @ ''\<newline>''"
  by (simp add: writeDirective.simps [of "DirectiveData n as cs"])

lemma getSortedKeys_unique:
  assumes "distinct (map fst m1)" and "distinct (map fst m2)"
    and "set (map fst m1) = set (map fst m2)"
  shows "getSortedKeys m1 = getSortedKeys m2"
  unfolding getSortedKeys_def getKeys_def
  using assms by (intro sorted_distinct_set_unique) simp_all

lemma map_of_entry:
  "distinct (map fst m) \<Longrightarrow> (k, c) \<in> set m \<Longrightarrow> map_of m k = Some c"
  by simp

lemma writeDirectives_cong:
  assumes d1: "distinct (map fst m1)" and d2: "distinct (map fst m2)"
    and keys: "set (map fst m1) = set (map fst m2)"
    and sub: "\<And>k ca cb. (k, ca) \<in> set m1 \<Longrightarrow> (k, cb) \<in> set m2
                \<Longrightarrow> writeDirective ca level = writeDirective cb level"
  shows "writeDirectives m1 level = writeDirectives m2 level"
proof -
  have same_keys: "getSortedKeys m1 = getSortedKeys m2"
    using d1 d2 keys by (rule getSortedKeys_unique)
  have "(case map_of m1 k of Some s \<Rightarrow> writeDirective s level | None \<Rightarrow> [])
          = (case map_of m2 k of Some s \<Rightarrow> writeDirective s level | None \<Rightarrow> [])"
    if "k \<in> set (getSortedKeys m1)" for k
  proof -
    from that have k1: "k \<in> set (map fst m1)"
      by (simp add: getSortedKeys_def getKeys_def)
    then obtain ca where ca: "(k, ca) \<in> set m1" by auto
    from k1 keys have "k \<in> set (map fst m2)" by simp
    then obtain cb where cb: "(k, cb) \<in> set m2" by auto
    from d1 ca have "map_of m1 k = Some ca" by simp
    moreover from d2 cb have "map_of m2 k = Some cb" by simp
    ultimately show ?thesis using sub [OF ca cb] by simp
  qed
  then show ?thesis
    by (simp add: writeDirectives.simps same_keys [symmetric] cong: map_cong)
qed

lemma writeDirective_same:
  "wfDirective a \<Longrightarrow> wfDirective b \<Longrightarrow> sameDirective a b
     \<Longrightarrow> writeDirective a level = writeDirective b level"
proof (induction a arbitrary: b level)
  case (DirectiveData n as cs)
  from DirectiveData.prems(3)
  have nm: "n = name b" and ar: "as = args b"
    and keys: "set (map fst cs) = set (map fst (children b))"
    and sub: "\<And>k ca cb. (k, ca) \<in> set cs \<Longrightarrow> (k, cb) \<in> set (children b) \<Longrightarrow> sameDirective ca cb"
    by (auto simp: sameDirective.simps [of "DirectiveData n as cs" b])
  from DirectiveData.prems(1)
  have d1: "distinct (map fst cs)" and w1: "\<And>k c. (k, c) \<in> set cs \<Longrightarrow> wfDirective c"
    by (auto simp: wfDirective.simps [of "DirectiveData n as cs"])
  from DirectiveData.prems(2)
  have d2: "distinct (map fst (children b))"
    and w2: "\<And>k c. (k, c) \<in> set (children b) \<Longrightarrow> wfDirective c"
    by (auto simp: wfDirective.simps [of b])
  have below: "writeDirectives cs l = writeDirectives (children b) l" for l
  proof (rule writeDirectives_cong [OF d1 d2 keys])
    fix k ca cb
    assume ca: "(k, ca) \<in> set cs" and cb: "(k, cb) \<in> set (children b)"
    show "writeDirective ca l = writeDirective cb l"
      using DirectiveData.IH [of "(k, ca)" ca cb l] ca w1 [OF ca] w2 [OF cb] sub [OF ca cb]
      by simp
  qed
  have empty: "(cs = []) = (children b = [])"
    using keys by (cases cs; cases "children b") auto
  show ?case
    using nm ar empty below [of "level + 1"]
    by (cases b) (simp add: writeDirective.simps)
qed

lemma writeDirectives_same:
  assumes "wfMap m1" and "wfMap m2" and "sameMap m1 m2"
  shows "writeDirectives m1 level = writeDirectives m2 level"
proof (rule writeDirectives_cong)
  show "distinct (map fst m1)" "distinct (map fst m2)"
    using assms(1,2) by (simp_all add: wfMap_def)
  show "set (map fst m1) = set (map fst m2)"
    using assms(3) by (simp add: sameMap_def)
next
  fix k ca cb
  assume ca: "(k, ca) \<in> set m1" and cb: "(k, cb) \<in> set m2"
  have "wfDirective ca" using assms(1) ca by (auto simp: wfMap_def)
  moreover have "wfDirective cb" using assms(2) cb by (auto simp: wfMap_def)
  moreover have "sameDirective ca cb" using assms(3) ca cb by (auto simp: sameMap_def)
  ultimately show "writeDirective ca level = writeDirective cb level"
    by (rule writeDirective_same)
qed

text \<open>
  The keys that \<open>getSortedKeys\<close> returns are the keys of the entries sorted by key, so
  looking each of them up in the map, as \<open>writeDirectives\<close> does, visits the entries in
  that order.
\<close>

lemma sorted_keys_entries:
  assumes "distinct (map fst m)"
  shows "getSortedKeys m = map fst (sort_key fst m)"
  unfolding getSortedKeys_def getKeys_def
proof (rule sorted_distinct_set_unique)
  show "sorted (sort (map fst m))" by simp
  show "distinct (sort (map fst m))" using assms by simp
  show "sorted (map fst (sort_key fst m))" by simp
  have "distinct (map fst xs) \<Longrightarrow> distinct (map fst (sort_key fst xs))"
    for xs :: "(string \<times> directiveData) list"
    by (induction xs) (simp_all add: distinct_insort_key)
  then show "distinct (map fst (sort_key fst m))" using assms .
  show "set (sort (map fst m)) = set (map fst (sort_key fst m))" by simp
qed

lemma writeDirectives_sorted_entries:
  assumes "distinct (map fst m)"
  shows "writeDirectives m level
           = concat (map (\<lambda>(k, c). writeDirective c level) (sort_key fst m))"
proof -
  have "(case map_of m (fst e) of Some s \<Rightarrow> writeDirective s level | None \<Rightarrow> [])
          = (case e of (k, c) \<Rightarrow> writeDirective c level)"
    if "e \<in> set (sort_key fst m)" for e
  proof -
    obtain k c where e: "e = (k, c)" by (cases e)
    with that have "(k, c) \<in> set m" by simp
    with assms have "map_of m k = Some c" by simp
    then show ?thesis by (simp add: e)
  qed
  then have eq: "map (\<lambda>name. case map_of m name of Some s \<Rightarrow> writeDirective s level | None \<Rightarrow> [])
               (map fst (sort_key fst m))
             = map (\<lambda>(k, c). writeDirective c level) (sort_key fst m)"
    unfolding map_map by (intro map_cong [OF refl]) (simp add: comp_def)
  have "writeDirectives m level
          = concat (map (\<lambda>name. case map_of m name of Some s \<Rightarrow> writeDirective s level | None \<Rightarrow> [])
                        (map fst (sort_key fst m)))"
    by (simp only: writeDirectives.simps sorted_keys_entries [OF assms])
  then show ?thesis by (simp only: eq)
qed

lemma writeDirective_sorted_children:
  assumes "distinct (map fst (children d))"
  shows "writeDirective d level
     = replicate (level * 2) CHR '' ''
       @ (if name d \<noteq> [] then name d else [])
       @ (if name d \<noteq> [] \<and> length (args d) > 0 then '' '' else [])
       @ (if length (args d) > 0
          then concat (map (\<lambda>(index, arg). (if index > 0 then '' '' else []) @ arg)
                           (enumerate 0 (args d)))
          else [])
       @ (if length (children d) > 0
          then '' {\<newline>''
               @ concat (map (\<lambda>(k, c). writeDirective c (level + 1)) (sort_key fst (children d)))
               @ replicate (level * 2) CHR '' '' @ ''}''
          else [])
       @ ''\<newline>''"
  by (subst writeDirective.simps) (simp add: writeDirectives_sorted_entries [OF assms])

text \<open>
  Claim C3. \<open>writeDirectives\<close> writes the entries of a map in the order of their keys:
  its output is the concatenation of what \<open>writeDirective\<close> writes for the entries sorted
  by key, the keys of these being the sorted, duplicate-free list of the keys of the map
  that \<open>getSortedKeys\<close> returns. \<open>writeDirective\<close> writes the children of any tree \<open>d\<close>,
  at any level \<open>l\<close>, in the same way, so the children are visited in sorted key order at
  every level. Hence two maps that hold the same bindings at every level are written to
  the same bytes, whatever the order in which their entries are stored or visited.
\<close>

theorem writeDirectives_deterministic:
  assumes "wfMap m1" and "wfMap m2" and "sameMap m1 m2"
  shows "writeDirectives m1 level
           = concat (map (\<lambda>(k, c). writeDirective c level) (sort_key fst m1))
         \<and> map fst (sort_key fst m1) = getSortedKeys m1
         \<and> sorted (getSortedKeys m1) \<and> distinct (getSortedKeys m1)
         \<and> set (getSortedKeys m1) = fst ` set m1
         \<and> (wfDirective d \<longrightarrow>
               writeDirective d l
                 = replicate (l * 2) CHR '' ''
                   @ (if name d \<noteq> [] then name d else [])
                   @ (if name d \<noteq> [] \<and> length (args d) > 0 then '' '' else [])
                   @ (if length (args d) > 0
                      then concat (map (\<lambda>(index, arg). (if index > 0 then '' '' else []) @ arg)
                                       (enumerate 0 (args d)))
                      else [])
                   @ (if length (children d) > 0
                      then '' {\<newline>''
                           @ concat (map (\<lambda>(k, c). writeDirective c (l + 1))
                                         (sort_key fst (children d)))
                           @ replicate (l * 2) CHR '' '' @ ''}''
                      else [])
                   @ ''\<newline>'')
         \<and> writeDirectives m1 level = writeDirectives m2 level"
proof -
  have d1: "distinct (map fst m1)" using assms(1) by (simp add: wfMap_def)
  have order: "writeDirectives m1 level
           = concat (map (\<lambda>(k, c). writeDirective c level) (sort_key fst m1))"
    using d1 by (rule writeDirectives_sorted_entries)
  have keys: "map fst (sort_key fst m1) = getSortedKeys m1"
    using d1 by (rule sorted_keys_entries [symmetric])
  have sorted: "sorted (getSortedKeys m1)"
    by (simp add: getSortedKeys_def)
  have distinct: "distinct (getSortedKeys m1)"
    using d1 by (simp add: getSortedKeys_def getKeys_def)
  have all: "set (getSortedKeys m1) = fst ` set m1"
    by (simp add: getSortedKeys_def getKeys_def)
  have below: "wfDirective d \<longrightarrow>
               writeDirective d l
                 = replicate (l * 2) CHR '' ''
                   @ (if name d \<noteq> [] then name d else [])
                   @ (if name d \<noteq> [] \<and> length (args d) > 0 then '' '' else [])
                   @ (if length (args d) > 0
                      then concat (map (\<lambda>(index, arg). (if index > 0 then '' '' else []) @ arg)
                                       (enumerate 0 (args d)))
                      else [])
                   @ (if length (children d) > 0
                      then '' {\<newline>''
                           @ concat (map (\<lambda>(k, c). writeDirective c (l + 1))
                                         (sort_key fst (children d)))
                           @ replicate (l * 2) CHR '' '' @ ''}''
                      else [])
                   @ ''\<newline>''"
  proof
    assume "wfDirective d"
    then have "distinct (map fst (children d))" by (simp add: wfDirective.simps [of d])
    then show "writeDirective d l
                 = replicate (l * 2) CHR '' ''
                   @ (if name d \<noteq> [] then name d else [])
                   @ (if name d \<noteq> [] \<and> length (args d) > 0 then '' '' else [])
                   @ (if length (args d) > 0
                      then concat (map (\<lambda>(index, arg). (if index > 0 then '' '' else []) @ arg)
                                       (enumerate 0 (args d)))
                      else [])
                   @ (if length (children d) > 0
                      then '' {\<newline>''
                           @ concat (map (\<lambda>(k, c). writeDirective c (l + 1))
                                         (sort_key fst (children d)))
                           @ replicate (l * 2) CHR '' '' @ ''}''
                      else [])
                   @ ''\<newline>''"
      by (rule writeDirective_sorted_children)
  qed
  have same: "writeDirectives m1 level = writeDirectives m2 level"
    using assms by (rule writeDirectives_same)
  from order keys sorted distinct all below same show ?thesis by (intro conjI)
qed

theorem writeDirectives_deterministic_witness:
  "writeDirectives
     [(''b.com'', DirectiveData ''b.com'' []
         [(''tls'', DirectiveData ''tls'' [''off''] []),
          (''proxy'', DirectiveData ''proxy'' [''/'', ''10.0.0.5:8080''] [])]),
      (''a.com'', DirectiveData ''a.com'' [] [(''gzip'', DirectiveData ''gzip'' [] [])])] 0
   = writeDirective (DirectiveData ''a.com'' [] [(''gzip'', DirectiveData ''gzip'' [] [])]) 0
     @ writeDirective (DirectiveData ''b.com'' []
         [(''tls'', DirectiveData ''tls'' [''off''] []),
          (''proxy'', DirectiveData ''proxy'' [''/'', ''10.0.0.5:8080''] [])]) 0
   \<and> writeDirective (DirectiveData ''b.com'' []
         [(''tls'', DirectiveData ''tls'' [''off''] []),
          (''proxy'', DirectiveData ''proxy'' [''/'', ''10.0.0.5:8080''] [])]) 0
   = ''b.com {\<newline>''
     @ writeDirective (DirectiveData ''proxy'' [''/'', ''10.0.0.5:8080''] []) 1
     @ writeDirective (DirectiveData ''tls'' [''off''] []) 1
     @ ''}\<newline>''
   \<and> writeDirectives
     [(''b.com'', DirectiveData ''b.com'' []
         [(''tls'', DirectiveData ''tls'' [''off''] []),
          (''proxy'', DirectiveData ''proxy'' [''/'', ''10.0.0.5:8080''] [])]),
      (''a.com'', DirectiveData ''a.com'' [] [(''gzip'', DirectiveData ''gzip'' [] [])])] 0
   = writeDirectives
     [(''a.com'', DirectiveData ''a.com'' [] [(''gzip'', DirectiveData ''gzip'' [] [])]),
      (''b.com'', DirectiveData ''b.com'' []
         [(''proxy'', DirectiveData ''proxy'' [''/'', ''10.0.0.5:8080''] []),
          (''tls'', DirectiveData ''tls'' [''off''] [])])] 0"
proof -
  have wf1: "wfMap
     [(''b.com'', DirectiveData ''b.com'' []
         [(''tls'', DirectiveData ''tls'' [''off''] []),
          (''proxy'', DirectiveData ''proxy'' [''/'', ''10.0.0.5:8080''] [])]),
      (''a.com'', DirectiveData ''a.com'' [] [(''gzip'', DirectiveData ''gzip'' [] [])])]"
    by (simp add: wfMap_def wfDirective_node)
  have wf2: "wfMap
     [(''a.com'', DirectiveData ''a.com'' [] [(''gzip'', DirectiveData ''gzip'' [] [])]),
      (''b.com'', DirectiveData ''b.com'' []
         [(''proxy'', DirectiveData ''proxy'' [''/'', ''10.0.0.5:8080''] []),
          (''tls'', DirectiveData ''tls'' [''off''] [])])]"
    by (simp add: wfMap_def wfDirective_node)
  have same: "sameMap
     [(''b.com'', DirectiveData ''b.com'' []
         [(''tls'', DirectiveData ''tls'' [''off''] []),
          (''proxy'', DirectiveData ''proxy'' [''/'', ''10.0.0.5:8080''] [])]),
      (''a.com'', DirectiveData ''a.com'' [] [(''gzip'', DirectiveData ''gzip'' [] [])])]
     [(''a.com'', DirectiveData ''a.com'' [] [(''gzip'', DirectiveData ''gzip'' [] [])]),
      (''b.com'', DirectiveData ''b.com'' []
         [(''proxy'', DirectiveData ''proxy'' [''/'', ''10.0.0.5:8080''] []),
          (''tls'', DirectiveData ''tls'' [''off''] [])])]"
    by (simp add: sameMap_def sameDirective_node insert_commute)
  have wfd: "wfDirective (DirectiveData ''b.com'' []
         [(''tls'', DirectiveData ''tls'' [''off''] []),
          (''proxy'', DirectiveData ''proxy'' [''/'', ''10.0.0.5:8080''] [])])"
    by (simp add: wfDirective_node)
  note inst = writeDirectives_deterministic [OF wf1 wf2 same, where level = 0 and l = 0
         and d = "DirectiveData ''b.com'' []
         [(''tls'', DirectiveData ''tls'' [''off''] []),
          (''proxy'', DirectiveData ''proxy'' [''/'', ''10.0.0.5:8080''] [])]"]
  from inst [THEN conjunct1]
  have order: "writeDirectives
     [(''b.com'', DirectiveData ''b.com'' []
         [(''tls'', DirectiveData ''tls'' [''off''] []),
          (''proxy'', DirectiveData ''proxy'' [''/'', ''10.0.0.5:8080''] [])]),
      (''a.com'', DirectiveData ''a.com'' [] [(''gzip'', DirectiveData ''gzip'' [] [])])] 0
   = writeDirective (DirectiveData ''a.com'' [] [(''gzip'', DirectiveData ''gzip'' [] [])]) 0
     @ writeDirective (DirectiveData ''b.com'' []
         [(''tls'', DirectiveData ''tls'' [''off''] []),
          (''proxy'', DirectiveData ''proxy'' [''/'', ''10.0.0.5:8080''] [])]) 0"
    by simp
  from inst [THEN conjunct2, THEN conjunct2, THEN conjunct2, THEN conjunct2, THEN conjunct2,
             THEN conjunct1, THEN mp, OF wfd]
  have node: "writeDirective (DirectiveData ''b.com'' []
         [(''tls'', DirectiveData ''tls'' [''off''] []),
          (''proxy'', DirectiveData ''proxy'' [''/'', ''10.0.0.5:8080''] [])]) 0
   = ''b.com {\<newline>''
     @ writeDirective (DirectiveData ''proxy'' [''/'', ''10.0.0.5:8080''] []) 1
     @ writeDirective (DirectiveData ''tls'' [''off''] []) 1
     @ ''}\<newline>''"
    by simp
  from inst [THEN conjunct2, THEN conjunct2, THEN conjunct2, THEN conjunct2, THEN conjunct2,
             THEN conjunct2]
  have equal: "writeDirectives
     [(''b.com'', DirectiveData ''b.com'' []
         [(''tls'', DirectiveData ''tls'' [''off''] []),
          (''proxy'', DirectiveData ''proxy'' [''/'', ''10.0.0.5:8080''] [])]),
      (''a.com'', DirectiveData ''a.com'' [] [(''gzip'', DirectiveData ''gzip'' [] [])])] 0
   = writeDirectives
     [(''a.com'', DirectiveData ''a.com'' [] [(''gzip'', DirectiveData ''gzip'' [] [])]),
      (''b.com'', DirectiveData ''b.com'' []
         [(''proxy'', DirectiveData ''proxy'' [''/'', ''10.0.0.5:8080''] []),
          (''tls'', DirectiveData ''tls'' [''off''] [])])] 0" .
  from order node equal show ?thesis by (intro conjI)
qed

lemma writeDirectives_insertion_order:
  assumes "distinct (map fst m1)" and "distinct (map fst m2)" and "map_of m1 = map_of m2"
  shows "writeDirectives m1 level = writeDirectives m2 level"
proof (rule writeDirectives_cong [OF assms(1,2)])
  have "dom (map_of m1) = dom (map_of m2)" using assms(3) by simp
  then show "set (map fst m1) = set (map fst m2)" by (simp add: dom_map_of_conv_image_fst)
next
  fix k ca cb
  assume ca: "(k, ca) \<in> set m1" and cb: "(k, cb) \<in> set m2"
  from assms(1) ca have "map_of m1 k = Some ca" by simp
  moreover from assms(2) cb have "map_of m2 k = Some cb" by simp
  ultimately have "ca = cb" using assms(3) by simp
  then show "writeDirective ca level = writeDirective cb level" by simp
qed

lemma writeDirectives_example:
  "writeDirectives
     [(''b.com'', DirectiveData ''b.com'' []
         [(''tls'', DirectiveData ''tls'' [''off''] []),
          (''proxy'', DirectiveData ''proxy'' [''/'', ''10.0.0.5:8080''] [])]),
      (''a.com'', DirectiveData ''a.com'' [] [(''gzip'', DirectiveData ''gzip'' [] [])])] 0
   = ''a.com {\<newline>  gzip\<newline>}\<newline>b.com {\<newline>  proxy / 10.0.0.5:8080\<newline>  tls off\<newline>}\<newline>''"
  by (simp add: writeDirectives.simps writeDirective_node getSortedKeys_def getKeys_def enumerate_eq_zip upt_rec numeral_2_eq_2)

section \<open>Label parser: what \<open>parseArgs\<close> returns\<close>

lemma regSplit_fold:
  "regSplit f text = (case fold (splitStep text) (f text) ([], 0) of
        (result, laststart) \<Rightarrow> result @ [slice text laststart (length text)])"
  by (simp add: regSplit_def splitStep_def Let_def)

lemma fold_wsIndexes:
  "text = pre @ cur @ rest \<Longrightarrow>
   (case fold (splitStep text) (wsIndexes (length (pre @ cur)) rest) (acc, length pre) of
      (result, laststart) \<Rightarrow> result @ [slice text laststart (length text)])
   = acc @ pieces cur rest"
proof (induction rest arbitrary: pre cur acc rule: length_induct)
  case (1 rest)
  show ?case
  proof (cases rest)
    case Nil
    with 1(2) show ?thesis by (simp add: slice_def)
  next
    case (Cons c cs)
    show ?thesis
    proof (cases "isSpace c")
      case False
      have "text = pre @ (cur @ [c]) @ cs" using 1(2) Cons by simp
      moreover have "length cs < length rest" using Cons by simp
      ultimately have "(case fold (splitStep text) (wsIndexes (length (pre @ cur @ [c])) cs) (acc, length pre) of
          (result, laststart) \<Rightarrow> result @ [slice text laststart (length text)])
        = acc @ pieces (cur @ [c]) cs"
        using 1(1) by blast
      with False Cons show ?thesis by simp
    next
      case True
      define ws where "ws = c # takeWhile isSpace cs"
      define r where "r = dropWhile isSpace cs"
      have rest_eq: "rest = ws @ r" unfolding ws_def r_def using Cons by simp
      have t: "text = (pre @ cur @ ws) @ [] @ r" using 1(2) rest_eq by simp
      have "length r < length rest" unfolding rest_eq ws_def by simp
      with t 1(1) have IH: "(case fold (splitStep text) (wsIndexes (length ((pre @ cur @ ws) @ [])) r)
             (acc @ [cur], length (pre @ cur @ ws)) of
          (result, laststart) \<Rightarrow> result @ [slice text laststart (length text)])
        = (acc @ [cur]) @ pieces [] r"
        by blast
      have sl: "slice text (length pre) (length pre + length cur) = cur"
        using 1(2) by (simp add: slice_def)
      have len: "length pre + length cur + 1 + length (takeWhile isSpace cs) = length (pre @ cur @ ws)"
        by (simp add: ws_def)
      show ?thesis
        using True Cons IH sl len
        by (simp add: splitStep_def r_def ws_def add.assoc)
    qed
  qed
qed

lemma regSplit_pieces: "regSplit (wsIndexes 0) text = pieces [] text"
  using fold_wsIndexes [of "text" "[]" "[]" "text" "[]"] by (simp add: regSplit_fold)


lemma nonSpaceRuns_dropWhile: "nonSpaceRuns (dropWhile isSpace r) = nonSpaceRuns r"
  by (induction r) simp_all

lemma nonSpaceRuns_all_space: "list_all isSpace r \<Longrightarrow> nonSpaceRuns r = []"
  by (induction r) simp_all

lemma last_all_space: "xs \<noteq> [] \<Longrightarrow> list_all isSpace xs \<Longrightarrow> isSpace (last xs)"
  by (induction xs) (auto split: if_splits)

lemma last_after_spaces:
  assumes "isSpace s"
  shows "isSpace (last (s # r))
           = (dropWhile isSpace r = [] \<or> isSpace (last (dropWhile isSpace r)))"
proof (cases "dropWhile isSpace r = []")
  case True
  then have "list_all isSpace r" by (simp add: list_all_iff)
  with assms have "list_all isSpace (s # r)" by simp
  then have "isSpace (last (s # r))" by (intro last_all_space) simp_all
  with True show ?thesis by simp
next
  case False
  have "last (takeWhile isSpace r @ dropWhile isSpace r) = last (dropWhile isSpace r)"
    using False by (rule last_appendR)
  then have "last r = last (dropWhile isSpace r)" by simp
  moreover have "r \<noteq> []" using False by auto
  ultimately show ?thesis using False by auto
qed

lemma pieces_word:
  "pieces cur rest
     = (cur @ takeWhile (\<lambda>x. \<not> isSpace x) rest)
       # (case dropWhile (\<lambda>x. \<not> isSpace x) rest of
            [] \<Rightarrow> []
          | s # r \<Rightarrow> pieces [] (dropWhile isSpace r))"
  by (induction rest arbitrary: cur) simp_all

lemma pieces_after_spaces:
  assumes "isSpace s"
    and "dropWhile isSpace r \<noteq> [] \<Longrightarrow>
           pieces [] (dropWhile isSpace r)
             = nonSpaceRuns (dropWhile isSpace r) @ trailing (dropWhile isSpace r)"
  shows "pieces [] (dropWhile isSpace r) = nonSpaceRuns (s # r) @ trailing (s # r)"
proof (cases "dropWhile isSpace r = []")
  case True
  then have "list_all isSpace r" by (simp add: list_all_iff)
  then have "nonSpaceRuns r = []" by (rule nonSpaceRuns_all_space)
  with assms(1) have runs: "nonSpaceRuns (s # r) = []" by simp
  have "isSpace (last (s # r))"
    using last_after_spaces [OF assms(1), of r] True by blast
  then have trail: "trailing (s # r) = [[]]" by (simp add: trailing_def)
  have "pieces [] (dropWhile isSpace r) = [[]]" unfolding True by simp
  with runs trail show ?thesis by simp
next
  case False
  have "isSpace (last (s # r)) = isSpace (last (dropWhile isSpace r))"
    using last_after_spaces [OF assms(1), of r] False by blast
  then have "trailing (s # r) = trailing (dropWhile isSpace r)"
    unfolding trailing_def by (rule arg_cong [where f = "\<lambda>b. if b then [[]] else []"])
  with assms(2) [OF False] assms(1) show ?thesis
    by (simp add: nonSpaceRuns_dropWhile)
qed

lemma pieces_from_word:
  "rest \<noteq> [] \<Longrightarrow> \<not> isSpace (hd rest)
     \<Longrightarrow> pieces [] rest = nonSpaceRuns rest @ trailing rest"
proof (induction rest rule: length_induct)
  case (1 rest)
  from 1(2) obtain c cs where rest: "rest = c # cs" by (cases rest) auto
  with 1(3) have c: "\<not> isSpace c" by simp
  define w where "w = c # takeWhile (\<lambda>x. \<not> isSpace x) cs"
  define d where "d = dropWhile (\<lambda>x. \<not> isSpace x) cs"
  have split: "rest = w @ d" by (simp add: rest w_def d_def)
  have runs: "nonSpaceRuns rest = w # nonSpaceRuns d"
    using c by (simp add: rest w_def d_def)
  have pcs: "pieces [] rest = w # (case d of [] \<Rightarrow> [] | s # r \<Rightarrow> pieces [] (dropWhile isSpace r))"
    using c pieces_word [of "[c]" cs] by (simp add: rest w_def d_def)
  show ?case
  proof (cases d)
    case Nil
    then have "list_all (\<lambda>x. \<not> isSpace x) cs"
      by (simp add: d_def list_all_iff)
    with c have "list_all (\<lambda>x. \<not> isSpace x) rest" by (simp add: rest)
    then have "\<not> isSpace (last rest)"
      using 1(2) by (simp add: list_all_iff)
    with Nil runs pcs show ?thesis by (simp add: trailing_def)
  next
    case (Cons s r)
    have "d \<noteq> []" using Cons by simp
    then have "\<not> (\<lambda>x. \<not> isSpace x) (hd d)" unfolding d_def by (rule hd_dropWhile)
    then have s: "isSpace s" using Cons by simp
    have shorter: "length (dropWhile isSpace r) < length rest"
      using length_dropWhile_le [of isSpace r] by (simp add: split Cons w_def)
    have IH: "dropWhile isSpace r \<noteq> [] \<Longrightarrow>
           pieces [] (dropWhile isSpace r)
             = nonSpaceRuns (dropWhile isSpace r) @ trailing (dropWhile isSpace r)"
    proof -
      assume ne: "dropWhile isSpace r \<noteq> []"
      then have "\<not> isSpace (hd (dropWhile isSpace r))" by (rule hd_dropWhile)
      with 1(1) shorter ne show ?thesis by blast
    qed
    have after: "pieces [] (dropWhile isSpace r) = nonSpaceRuns (s # r) @ trailing (s # r)"
      using s IH by (rule pieces_after_spaces)
    have "last rest = last (s # r)" by (simp add: split Cons)
    then have "trailing rest = trailing (s # r)" by (simp add: trailing_def)
    with after runs pcs Cons show ?thesis by simp
  qed
qed

lemma pieces_nonempty:
  assumes "t \<noteq> []"
  shows "pieces [] t
           = (if isSpace (hd t) then [[]] else []) @ nonSpaceRuns t @ trailing t"
proof (cases "isSpace (hd t)")
  case False
  with assms show ?thesis by (simp add: pieces_from_word)
next
  case True
  from assms obtain s r where t: "t = s # r" by (cases t) auto
  with True have s: "isSpace s" by simp
  have "pieces [] (dropWhile isSpace r) = nonSpaceRuns (s # r) @ trailing (s # r)"
  proof (rule pieces_after_spaces [OF s])
    assume ne: "dropWhile isSpace r \<noteq> []"
    then have "\<not> isSpace (hd (dropWhile isSpace r))" by (rule hd_dropWhile)
    with ne show "pieces [] (dropWhile isSpace r)
             = nonSpaceRuns (dropWhile isSpace r) @ trailing (dropWhile isSpace r)"
      by (rule pieces_from_word)
  qed
  with s show ?thesis by (simp add: t)
qed

lemma nonSpaceRuns_no_empty: "[] \<notin> set (nonSpaceRuns t)"
  by (induction t rule: nonSpaceRuns.induct) auto

lemma nonSpaceRuns_word: "t \<noteq> [] \<Longrightarrow> \<not> isSpace (hd t) \<Longrightarrow> nonSpaceRuns t \<noteq> []"
  by (cases t) auto

lemma nonSpaceRuns_last_word: "t \<noteq> [] \<Longrightarrow> \<not> isSpace (last t) \<Longrightarrow> nonSpaceRuns t \<noteq> []"
  by (induction t rule: nonSpaceRuns.induct) (auto split: if_splits)

text \<open>
  Claim C7, as the code has it. The empty value gives no argument. Every other value
  gives the maximal runs of non-whitespace characters in order, with one empty argument
  before them when the value begins with whitespace and one empty argument after them
  when it ends with whitespace; so a value of whitespace only gives two empty arguments,
  and a value that neither begins nor ends with whitespace gives exactly its runs.
\<close>

theorem parseArgs_runs:
  "parseArgs t
     = (if t = [] then []
        else (if isSpace (hd t) then [[]] else []) @ nonSpaceRuns t
             @ (if isSpace (last t) then [[]] else []))"
proof (cases "t = []")
  case True
  then show ?thesis by (simp add: parseArgs_def regSplit_pieces)
next
  case False
  have eq: "regSplit (wsIndexes 0) t
      = (if isSpace (hd t) then [[]] else []) @ nonSpaceRuns t
        @ (if isSpace (last t) then [[]] else [])"
    using False by (simp add: regSplit_pieces pieces_nonempty trailing_def)
  have "\<not> (length (regSplit (wsIndexes 0) t) = 1 \<and> regSplit (wsIndexes 0) t ! 0 = [])"
  proof
    assume a: "length (regSplit (wsIndexes 0) t) = 1 \<and> regSplit (wsIndexes 0) t ! 0 = []"
    show False
    proof (cases "isSpace (hd t)")
      case True
      with a eq have "nonSpaceRuns t = []" and "\<not> isSpace (last t)"
        by (auto split: if_splits)
      with False nonSpaceRuns_last_word [of t] show False by simp
    next
      case hd: False
      with False have ne: "nonSpaceRuns t \<noteq> []" by (simp add: nonSpaceRuns_word)
      with a eq hd have "nonSpaceRuns t = [[]]"
        by (cases "nonSpaceRuns t") (auto split: if_splits)
      with nonSpaceRuns_no_empty [of t] show False by simp
    qed
  qed
  then have "parseArgs t = regSplit (wsIndexes 0) t"
    unfolding parseArgs_def Let_def by (rule if_not_P)
  with False eq show ?thesis by simp
qed

theorem parseArgs_runs_witness:
  "parseArgs '' /api  10.0.0.5:80 '' = ['''', ''/api'', ''10.0.0.5:80'', '''']
   \<and> parseArgs ''/api  10.0.0.5:80'' = [''/api'', ''10.0.0.5:80'']
   \<and> parseArgs '''' = []"
  using parseArgs_runs [of "'' /api  10.0.0.5:80 ''"] parseArgs_runs [of "''/api  10.0.0.5:80''"]
        parseArgs_runs [of "''''"]
  by (simp add: isSpace_def)

text \<open>
  Claim C7 as the spec states it fails: a value of two spaces has no non-whitespace
  character and gives two arguments, both empty; and a value with a space before and
  after one word gives three arguments, not the one run.
\<close>

theorem parseArgs_whitespace_only:
  "list_all isSpace ''  '' \<and> parseArgs ''  '' = ['''', '''']
   \<and> nonSpaceRuns '' a '' = [''a''] \<and> parseArgs '' a '' = ['''', ''a'', '''']"
  by (simp add: parseArgs_def regSplit_def slice_def isSpace_def)

section \<open>Merge engine: conflicts and proxy accumulation\<close>

lemma map_of_mapAssign: "map_of (mapAssign k v m) = (map_of m)(k \<mapsto> v)"
  by (induction m) (auto simp: fun_eq_iff)

lemma keys_mapAssign:
  "map fst (mapAssign k v m) = (if map_of m k = None then map fst m @ [k] else map fst m)"
  by (induction m) auto

lemma distinct_mapAssign: "distinct (map fst m) \<Longrightarrow> distinct (map fst (mapAssign k v m))"
  by (auto simp: keys_mapAssign map_of_eq_None_iff)

lemma directivesAreSimilar_iff: "directivesAreSimilar a b = (args a = args b)"
  unfolding directivesAreSimilar_def list_all_iff
  by (auto simp: list_eq_iff_nth_eq [of "args a" "args b"])

lemma mergeChild_other_key:
  assumes "k' \<noteq> k" and "\<And>j. renamedKey k' (rnd j) \<noteq> k"
    and "map_of (fst st') = (map_of (fst st))(k \<mapsto> x)" and "snd st' = snd st"
  shows "map_of (fst (mergeChild rnd (k', c) st')) = (map_of (fst (mergeChild rnd (k', c) st)))(k \<mapsto> x)
         \<and> snd (mergeChild rnd (k', c) st') = snd (mergeChild rnd (k', c) st)
         \<and> map_of (fst (mergeChild rnd (k', c) st)) k = map_of (fst st) k"
proof -
  obtain m i where st: "st = (m, i)" by (cases st)
  obtain m' i' where st': "st' = (m', i')" by (cases st')
  from assms(3,4) have rel: "map_of m' = (map_of m)(k \<mapsto> x)" and i: "i' = i"
    by (simp_all add: st st')
  from rel assms(1) have same: "map_of m' k' = map_of m k'" by simp
  show ?thesis
    using assms(1) assms(2) [of i] rel
    by (auto simp: st st' i mergeChild_def same map_of_mapAssign fun_upd_twist
             split: option.splits)
qed

lemma fold_mergeChild_other_keys:
  assumes "k \<notin> fst ` set xs"
    and "\<And>k' c j. (k', c) \<in> set xs \<Longrightarrow> renamedKey k' (rnd j) \<noteq> k"
    and "map_of (fst st') = (map_of (fst st))(k \<mapsto> x)" and "snd st' = snd st"
  shows "map_of (fst (fold (mergeChild rnd) xs st')) = (map_of (fst (fold (mergeChild rnd) xs st)))(k \<mapsto> x)
         \<and> snd (fold (mergeChild rnd) xs st') = snd (fold (mergeChild rnd) xs st)
         \<and> map_of (fst (fold (mergeChild rnd) xs st)) k = map_of (fst st) k"
  using assms
proof (induction xs arbitrary: st st')
  case Nil
  then show ?case by simp
next
  case (Cons e xs)
  obtain k' c where e: "e = (k', c)" by (cases e)
  from Cons.prems(1) have k': "k' \<noteq> k" and notin: "k \<notin> fst ` set xs" by (auto simp: e)
  have ren: "\<And>j. renamedKey k' (rnd j) \<noteq> k" using Cons.prems(2) [of k' c] by (simp add: e)
  from mergeChild_other_key [OF k' ren Cons.prems(3,4), where c = c]
  have step: "map_of (fst (mergeChild rnd e st')) = (map_of (fst (mergeChild rnd e st)))(k \<mapsto> x)"
    and cnt: "snd (mergeChild rnd e st') = snd (mergeChild rnd e st)"
    and keep: "map_of (fst (mergeChild rnd e st)) k = map_of (fst st) k"
    by (simp_all add: e)
  have rest: "\<And>k' c j. (k', c) \<in> set xs \<Longrightarrow> renamedKey k' (rnd j) \<noteq> k"
  proof -
    fix k'' c'' j
    assume "(k'', c'') \<in> set xs"
    then have "(k'', c'') \<in> set (e # xs)" by simp
    then show "renamedKey k'' (rnd j) \<noteq> k" by (rule Cons.prems(2))
  qed
  from Cons.IH [OF notin rest step cnt] keep show ?case by simp
qed

lemma fold_mergeChild_same_route:
  assumes "distinct (map fst xs)" and "(k, subB) \<in> set xs"
    and "map_of (fst st) k = Some subA" and "sameRoute subA subB"
    and "\<And>k' c j. (k', c) \<in> set xs \<Longrightarrow> k' \<noteq> k \<Longrightarrow> renamedKey k' (rnd j) \<noteq> k"
  shows "map_of (fst (fold (mergeChild rnd) xs st))
           = (map_of (fst (fold (mergeChild rnd) (filter (\<lambda>e. fst e \<noteq> k) xs) st)))
               (k \<mapsto> addArgs subA (tl (args subB)))
         \<and> snd (fold (mergeChild rnd) xs st)
             = snd (fold (mergeChild rnd) (filter (\<lambda>e. fst e \<noteq> k) xs) st)
         \<and> map_of (fst (fold (mergeChild rnd) (filter (\<lambda>e. fst e \<noteq> k) xs) st)) k = Some subA"
  using assms
proof (induction xs arbitrary: st)
  case Nil
  then show ?case by simp
next
  case (Cons e xs)
  obtain k' c where e: "e = (k', c)" by (cases e)
  show ?case
  proof (cases "k' = k")
    case True
    from Cons.prems(1) have notin: "k \<notin> fst ` set xs" by (simp add: e True)
    with Cons.prems(2) have c: "c = subB" by (force simp: e True)
    have keep: "filter (\<lambda>e. fst e \<noteq> k) xs = xs"
      using notin by (intro filter_True) auto
    obtain m i where st: "st = (m, i)" by (cases st)
    from Cons.prems(3) have look: "map_of m k = Some subA" by (simp add: st)
    have step: "mergeChild rnd e (m, i) = (mapAssign k (addArgs subA (tl (args subB))) m, i)"
      using look Cons.prems(4) by (simp add: mergeChild_def e True c)
    have ren: "\<And>k' c j. (k', c) \<in> set xs \<Longrightarrow> renamedKey k' (rnd j) \<noteq> k"
    proof -
      fix k'' c'' j
      assume mem: "(k'', c'') \<in> set xs"
      with notin have "k'' \<noteq> k" by force
      moreover from mem have "(k'', c'') \<in> set (e # xs)" by simp
      ultimately show "renamedKey k'' (rnd j) \<noteq> k" by (rule Cons.prems(5) [rotated])
    qed
    have "map_of (fst (mergeChild rnd e st)) = (map_of (fst st))(k \<mapsto> addArgs subA (tl (args subB)))"
      and "snd (mergeChild rnd e st) = snd st"
      by (simp_all add: step st map_of_mapAssign)
    from fold_mergeChild_other_keys [OF notin ren this] Cons.prems(3)
    show ?thesis by (simp add: e True keep)
  next
    case False
    from Cons.prems(1) have dist: "distinct (map fst xs)" by simp
    from Cons.prems(2) False have mem: "(k, subB) \<in> set xs" by (auto simp: e)
    have ren: "\<And>j. renamedKey k' (rnd j) \<noteq> k"
      using Cons.prems(5) [of k' c] False by (simp add: e)
    have "map_of (fst st) = (map_of (fst st))(k \<mapsto> subA)"
      using Cons.prems(3) by (auto simp: fun_eq_iff)
    from mergeChild_other_key [OF False ren this refl, where c = c] Cons.prems(3)
    have look: "map_of (fst (mergeChild rnd e st)) k = Some subA" by (simp add: e)
    have ren': "\<And>k' c j. (k', c) \<in> set xs \<Longrightarrow> k' \<noteq> k \<Longrightarrow> renamedKey k' (rnd j) \<noteq> k"
    proof -
      fix k'' c'' j
      assume "(k'', c'') \<in> set xs" and ne: "k'' \<noteq> k"
      then have "(k'', c'') \<in> set (e # xs)" by simp
      then show "renamedKey k'' (rnd j) \<noteq> k" using ne by (rule Cons.prems(5))
    qed
    from Cons.IH [OF dist mem look Cons.prems(4) ren'] show ?thesis
      by (simp add: e False)
  qed
qed

lemmas suffix_defs = createUniqueSuffix_def intstring_def encodeRune_def runeError_def
  char_of_def bit_iff_odd_drop_bit
lemmas merge_defs = mergeDirectives_def mergeChild_def sameRoute_def directivesAreSimilar_iff
  renamedKey_def removeSuffix_def isDigit_def addArgs_def

text \<open>
  On a conflict the child of \<open>B\<close> is stored under the re-keyed name and one suffix is
  drawn; the child of \<open>A\<close> at \<open>k\<close> stays when the new key is not \<open>k\<close> itself.
\<close>

lemma mergeChild_conflict:
  assumes "map_of m k = Some subA" and "\<not> sameRoute subA subB" and "args subA \<noteq> args subB"
  shows "mergeChild rnd (k, subB) (m, i) = (mapAssign (renamedKey k (rnd i)) subB m, Suc i)"
  using assms by (simp add: mergeChild_def directivesAreSimilar_iff)

lemma mergeChild_conflict_map:
  assumes "map_of m k = Some subA" and "\<not> sameRoute subA subB" and "args subA \<noteq> args subB"
    and "renamedKey k (rnd i) \<noteq> k"
  shows "map_of (fst (mergeChild rnd (k, subB) (m, i))) k = Some subA"
    and "map_of (fst (mergeChild rnd (k, subB) (m, i))) (renamedKey k (rnd i)) = Some subB"
  using assms by (simp_all add: mergeChild_conflict map_of_mapAssign)

text \<open>
  The suffix is never the decimal numeral of the value drawn: above 0x7F its first byte
  is no digit, and below it is the one byte of that value.
\<close>

lemma isDigit_iff: "isDigit c = (48 \<le> (of_char c :: nat) \<and> (of_char c :: nat) \<le> 57)"
  by (simp add: isDigit_def less_eq_char_def)

lemma decimal_digits: "list_all isDigit (decimal n)"
proof (induction n rule: decimal.induct)
  case (1 n)
  have d: "isDigit (char_of (48 + m))" if "m < 10" for m :: nat
    using that by (simp add: isDigit_iff)
  show ?case
  proof (cases "n < 10")
    case True
    then show ?thesis by (simp add: decimal.simps [of n] d)
  next
    case False
    with 1 have "list_all isDigit (decimal (n div 10))" by simp
    moreover have "isDigit (char_of (48 + n mod 10))" by (rule d) simp
    ultimately show ?thesis using False by (simp add: decimal.simps [of n])
  qed
qed

lemma decimal_not_Nil: "decimal n \<noteq> []"
  by (simp add: decimal.simps [of n])

lemma decimal_length: "10 \<le> n \<Longrightarrow> 2 \<le> length (decimal n)"
  using decimal_not_Nil [of "n div 10"]
  by (cases "decimal (n div 10)") (simp_all add: decimal.simps [of n])

lemma createUniqueSuffix_first_byte:
  assumes "0x7F < val"
  shows "createUniqueSuffix val \<noteq> [] \<and> \<not> isDigit (hd (createUniqueSuffix val))"
proof -
  have a: "val \<le> 0x7FF \<Longrightarrow> 192 + val div 64 < 256 \<and> 57 < 192 + val div 64" by simp
  have b: "val \<le> 0xFFFF \<Longrightarrow> 224 + val div 4096 < 256 \<and> 57 < 224 + val div 4096" by simp
  have c: "val \<le> 0x10FFFF \<Longrightarrow> 240 + val div 262144 < 256 \<and> 57 < 240 + val div 262144" by simp
  show ?thesis
    using assms a b c
    by (simp add: createUniqueSuffix_def intstring_def encodeRune_def runeError_def isDigit_iff)
qed

lemma createUniqueSuffix_not_decimal: "createUniqueSuffix val \<noteq> decimal val"
proof (cases "0x7F < val")
  case True
  then have "\<not> isDigit (hd (createUniqueSuffix val))"
    by (simp add: createUniqueSuffix_first_byte)
  moreover have "isDigit (hd (decimal val))"
    using decimal_digits [of val] decimal_not_Nil [of val]
    by (cases "decimal val") simp_all
  ultimately show ?thesis by auto
next
  case False
  then have one: "createUniqueSuffix val = [char_of val]"
    by (simp add: createUniqueSuffix_def intstring_def encodeRune_def)
  show ?thesis
  proof (cases "val < 10")
    case True
    have "of_char (char_of val) \<noteq> (of_char (char_of (48 + val)) :: nat)"
      using True by simp
    then have "char_of val \<noteq> char_of (48 + val)" by auto
    with True one show ?thesis by (simp add: decimal.simps [of val])
  next
    case ge: False
    then have "2 \<le> length (decimal val)" by (simp add: decimal_length)
    moreover have "length (createUniqueSuffix val) = 1" by (simp add: one)
    ultimately have "length (createUniqueSuffix val) \<noteq> length (decimal val)" by simp
    then show ?thesis by auto
  qed
qed

lemma createUniqueSuffix_not_code_point:
  "0x10FFFF < val \<Longrightarrow> createUniqueSuffix val = [CHR 0xEF, CHR 0xBF, CHR 0xBD]"
  by (simp add: suffix_defs)

text \<open>
  Claim C1 on the code. \<open>createUniqueSuffix\<close> converts the integer it draws with
  \<open>string(...)\<close>, which gives the UTF-8 encoding of a code point and not a numeral: for
  the value 4611686018427387904, as for every value above 0x10FFFF, the suffix is the
  three bytes EF BF BD. The child of \<open>B\<close> in conflict at \<open>tls\<close> is stored under \<open>tls_\<close>
  followed by these bytes, and \<open>A\<close>'s child at \<open>tls\<close> stays. The suffix is the same
  for another draw, so a third tree in conflict at \<open>tls\<close> replaces the sibling that the
  second one added.
\<close>

theorem mergeDirectives_suffix_not_numeric:
  "createUniqueSuffix 4611686018427387904 = [CHR 0xEF, CHR 0xBF, CHR 0xBD]
   \<and> decimal 4611686018427387904 = ''4611686018427387904''
   \<and> mergeDirectives (\<lambda>i. if i = 0 then 4611686018427387904 else 1152921504606846976) 0
        (Some (DirectiveData ''site.com'' [] [(''tls'', DirectiveData ''tls'' [''internal''] [])]))
        (Some (DirectiveData ''site.com'' [] [(''tls'', DirectiveData ''tls'' [''off''] [])]))
      = (Some (DirectiveData ''site.com'' []
           [(''tls'', DirectiveData ''tls'' [''internal''] []),
            (''tls_'' @ [CHR 0xEF, CHR 0xBF, CHR 0xBD], DirectiveData ''tls'' [''off''] [])]), 1)
   \<and> mergeDirectives (\<lambda>i. if i = 0 then 4611686018427387904 else 1152921504606846976) 1
        (Some (DirectiveData ''site.com'' []
           [(''tls'', DirectiveData ''tls'' [''internal''] []),
            (''tls_'' @ [CHR 0xEF, CHR 0xBF, CHR 0xBD], DirectiveData ''tls'' [''off''] [])]))
        (Some (DirectiveData ''site.com'' [] [(''tls'', DirectiveData ''tls'' [''self_signed''] [])]))
      = (Some (DirectiveData ''site.com'' []
           [(''tls'', DirectiveData ''tls'' [''internal''] []),
            (''tls_'' @ [CHR 0xEF, CHR 0xBF, CHR 0xBD], DirectiveData ''tls'' [''self_signed''] [])]), 2)"
  by (simp add: merge_defs suffix_defs decimal.simps)

text \<open>
  Claim C2, as the code has it. Let the children of \<open>A\<close> and \<open>B\<close> at key \<open>k\<close> be proxy
  directives with a first argument, the same one, and let no other child key of \<open>B\<close>
  be re-keyed to \<open>k\<close> by a suffix that the random source draws. Then the merge of \<open>A\<close>
  and \<open>B\<close> is the merge of \<open>A\<close> and \<open>B\<close> without its child at \<open>k\<close>, except that at \<open>k\<close>
  the child of \<open>A\<close> has the arguments of \<open>B\<close>'s child after the first appended: the same
  keys, no entry of its own for \<open>B\<close>'s child, and no suffix drawn for it.
\<close>

theorem mergeDirectives_same_route:
  assumes "distinct (map fst (children b))"
    and "map_of (children a) k = Some subA" and "map_of (children b) k = Some subB"
    and "sameRoute subA subB"
    and "\<forall>(k', c) \<in> set (children b). k' \<noteq> k \<longrightarrow> (\<forall>j. renamedKey k' (rnd j) \<noteq> k)"
  shows "\<exists>m m0 n. mergeDirectives rnd i (Some a) (Some b) = (Some (DirectiveData (name a) (args a) m), n)
           \<and> mergeDirectives rnd i (Some a) (Some (withoutChild k b))
               = (Some (DirectiveData (name a) (args a) m0), n)
           \<and> map_of m0 k = Some subA
           \<and> map_of m = (map_of m0)(k \<mapsto> addArgs subA (tl (args subB)))
           \<and> set (map fst m) = set (map fst m0)"
proof -
  define m where "m = fst (fold (mergeChild rnd) (children b) (children a, i))"
  define n where "n = snd (fold (mergeChild rnd) (children b) (children a, i))"
  define m0 where "m0 = fst (fold (mergeChild rnd) (filter (\<lambda>e. fst e \<noteq> k) (children b)) (children a, i))"
  define n0 where "n0 = snd (fold (mergeChild rnd) (filter (\<lambda>e. fst e \<noteq> k) (children b)) (children a, i))"
  have mem: "(k, subB) \<in> set (children b)" using assms(3) by (rule map_of_SomeD)
  have ren: "\<And>k' c j. (k', c) \<in> set (children b) \<Longrightarrow> k' \<noteq> k \<Longrightarrow> renamedKey k' (rnd j) \<noteq> k"
    using assms(5) by blast
  have look: "map_of (fst (children a, i)) k = Some subA" using assms(2) by simp
  from fold_mergeChild_same_route [OF assms(1) mem look assms(4) ren]
  have maps: "map_of m = (map_of m0)(k \<mapsto> addArgs subA (tl (args subB)))"
    and cnt: "n = n0" and at: "map_of m0 k = Some subA"
    by (simp_all add: m_def n_def m0_def n0_def)
  have "dom (map_of m) = dom (map_of m0)" using maps at by auto
  then have keys: "set (map fst m) = set (map fst m0)" by (simp add: dom_map_of_conv_image_fst)
  have r1: "mergeDirectives rnd i (Some a) (Some b) = (Some (DirectiveData (name a) (args a) m), n)"
    by (simp add: mergeDirectives_def m_def n_def split_beta)
  have r2: "mergeDirectives rnd i (Some a) (Some (withoutChild k b))
              = (Some (DirectiveData (name a) (args a) m0), n)"
    by (simp add: mergeDirectives_def withoutChild_def m0_def n0_def cnt split_beta)
  from r1 r2 at maps keys show ?thesis by blast
qed

theorem mergeDirectives_same_route_witness:
  "\<exists>m m0 n.
     mergeDirectives (\<lambda>i. 4611686018427387904) 0
        (Some (DirectiveData ''site.com'' []
           [(''proxy'', DirectiveData ''proxy'' [''/'', ''10.0.0.5:80''] []),
            (''tls'', DirectiveData ''tls'' [''internal''] [])]))
        (Some (DirectiveData ''site.com'' []
           [(''tls'', DirectiveData ''tls'' [''off''] []),
            (''proxy'', DirectiveData ''proxy'' [''/'', ''10.0.0.6:80''] [])]))
       = (Some (DirectiveData
            (name (DirectiveData ''site.com'' []
               [(''proxy'', DirectiveData ''proxy'' [''/'', ''10.0.0.5:80''] []),
                (''tls'', DirectiveData ''tls'' [''internal''] [])]))
            (args (DirectiveData ''site.com'' []
               [(''proxy'', DirectiveData ''proxy'' [''/'', ''10.0.0.5:80''] []),
                (''tls'', DirectiveData ''tls'' [''internal''] [])])) m), n)
     \<and> mergeDirectives (\<lambda>i. 4611686018427387904) 0
        (Some (DirectiveData ''site.com'' []
           [(''proxy'', DirectiveData ''proxy'' [''/'', ''10.0.0.5:80''] []),
            (''tls'', DirectiveData ''tls'' [''internal''] [])]))
        (Some (withoutChild ''proxy'' (DirectiveData ''site.com'' []
           [(''tls'', DirectiveData ''tls'' [''off''] []),
            (''proxy'', DirectiveData ''proxy'' [''/'', ''10.0.0.6:80''] [])])))
       = (Some (DirectiveData
            (name (DirectiveData ''site.com'' []
               [(''proxy'', DirectiveData ''proxy'' [''/'', ''10.0.0.5:80''] []),
                (''tls'', DirectiveData ''tls'' [''internal''] [])]))
            (args (DirectiveData ''site.com'' []
               [(''proxy'', DirectiveData ''proxy'' [''/'', ''10.0.0.5:80''] []),
                (''tls'', DirectiveData ''tls'' [''internal''] [])])) m0), n)
     \<and> map_of m0 ''proxy'' = Some (DirectiveData ''proxy'' [''/'', ''10.0.0.5:80''] [])
     \<and> map_of m = (map_of m0)(''proxy'' \<mapsto>
           addArgs (DirectiveData ''proxy'' [''/'', ''10.0.0.5:80''] [])
                   (tl (args (DirectiveData ''proxy'' [''/'', ''10.0.0.6:80''] []))))
     \<and> set (map fst m) = set (map fst m0)"
  by (rule mergeDirectives_same_route)
     (simp_all add: sameRoute_def renamedKey_def removeSuffix_def isDigit_def suffix_defs)

lemma mergeDirectives_same_route_example:
  "mergeDirectives (\<lambda>i. 4611686018427387904) 0
        (Some (DirectiveData ''site.com'' []
           [(''proxy'', DirectiveData ''proxy'' [''/'', ''10.0.0.5:80''] []),
            (''tls'', DirectiveData ''tls'' [''internal''] [])]))
        (Some (DirectiveData ''site.com'' []
           [(''tls'', DirectiveData ''tls'' [''off''] []),
            (''proxy'', DirectiveData ''proxy'' [''/'', ''10.0.0.6:80''] [])]))
   = (Some (DirectiveData ''site.com'' []
           [(''proxy'', DirectiveData ''proxy'' [''/'', ''10.0.0.5:80'', ''10.0.0.6:80''] []),
            (''tls'', DirectiveData ''tls'' [''internal''] []),
            (''tls_'' @ [CHR 0xEF, CHR 0xBF, CHR 0xBD], DirectiveData ''tls'' [''off''] [])]), 1)"
  by (simp add: merge_defs suffix_defs)

text \<open>
  Claim C2 as the spec states it fails when another child of \<open>B\<close> is re-keyed to \<open>k\<close>.
  Below, the children of \<open>A\<close> and \<open>B\<close> at \<open>proxy_5\<close> are proxy directives for the same
  path \<open>/api\<close>; their children at \<open>proxy\<close> are in conflict, the value drawn is 53,
  which \<open>createUniqueSuffix\<close> turns into the string \<open>5\<close>, and \<open>B\<close>'s child at \<open>proxy\<close> is
  stored at \<open>proxy_5\<close>. When the loop visits \<open>proxy\<close> first, \<open>A\<close>'s child at \<open>proxy_5\<close>
  is replaced before anything is appended to it, and \<open>B\<close>'s child at \<open>proxy_5\<close> then
  meets a directive for another path and replaces it in turn. When the loop visits
  \<open>proxy_5\<close> first, the accumulated directive is replaced afterwards. In neither order
  does the result hold, at \<open>proxy_5\<close>, the child of \<open>A\<close> with the backend of \<open>B\<close> appended.
\<close>

theorem mergeDirectives_same_route_overwritten:
  "sameRoute (DirectiveData ''proxy'' [''/api'', ''10.0.0.5:80''] [])
             (DirectiveData ''proxy'' [''/api'', ''10.0.0.6:80''] [])
   \<and> addArgs (DirectiveData ''proxy'' [''/api'', ''10.0.0.5:80''] [])
              (tl (args (DirectiveData ''proxy'' [''/api'', ''10.0.0.6:80''] [])))
       = DirectiveData ''proxy'' [''/api'', ''10.0.0.5:80'', ''10.0.0.6:80''] []
   \<and> mergeDirectives (\<lambda>i. 53) 0
        (Some (DirectiveData ''site.com'' []
           [(''proxy_5'', DirectiveData ''proxy'' [''/api'', ''10.0.0.5:80''] []),
            (''proxy'', DirectiveData ''proxy'' [''/'', ''10.0.0.7:80''] [])]))
        (Some (DirectiveData ''site.com'' []
           [(''proxy'', DirectiveData ''proxy'' [''/old'', ''10.0.0.8:80''] []),
            (''proxy_5'', DirectiveData ''proxy'' [''/api'', ''10.0.0.6:80''] [])]))
      = (Some (DirectiveData ''site.com'' []
           [(''proxy_5'', DirectiveData ''proxy'' [''/api'', ''10.0.0.6:80''] []),
            (''proxy'', DirectiveData ''proxy'' [''/'', ''10.0.0.7:80''] [])]), 2)
   \<and> mergeDirectives (\<lambda>i. 53) 0
        (Some (DirectiveData ''site.com'' []
           [(''proxy_5'', DirectiveData ''proxy'' [''/api'', ''10.0.0.5:80''] []),
            (''proxy'', DirectiveData ''proxy'' [''/'', ''10.0.0.7:80''] [])]))
        (Some (DirectiveData ''site.com'' []
           [(''proxy_5'', DirectiveData ''proxy'' [''/api'', ''10.0.0.6:80''] []),
            (''proxy'', DirectiveData ''proxy'' [''/old'', ''10.0.0.8:80''] [])]))
      = (Some (DirectiveData ''site.com'' []
           [(''proxy_5'', DirectiveData ''proxy'' [''/old'', ''10.0.0.8:80''] []),
            (''proxy'', DirectiveData ''proxy'' [''/'', ''10.0.0.7:80''] [])]), 1)"
  by (simp add: merge_defs suffix_defs)

section \<open>Reconciliation: a second cycle\<close>

lemma update_second_cycle:
  "validated (snd (snd (update P' v' (fst (snd (update P v dl0 r0 (caddyfile, logs0, None))))
                          r' (caddyfile, logs', None)))) = []
   \<and> ReloadCaddy \<notin> set (snd (snd (update P' v' (fst (snd (update P v dl0 r0 (caddyfile, logs0, None))))
                          r' (caddyfile, logs', None))))"
proof -
  define dl1 where "dl1 = fst (snd (update P v dl0 r0 (caddyfile, logs0, None)))"
  have prev: "previousCaddyfile dl1 = caddyfile"
    unfolding dl1_def by (rule update_previousCaddyfile)
  have second: "update P' v' dl1 r' (caddyfile, logs', None)
      = (False, dl1\<lparr>skipEvents := False, previousCaddyfile := previousCaddyfile dl1, previousLogs := logs'\<rparr>,
         TimerReset # (if previousLogs dl1 \<noteq> logs' then [LogPrint logs'] else []))"
    using update_unchanged [of P' v' dl1 r' logs'] prev by simp
  show ?thesis
    unfolding dl1_def [symmetric] by (simp add: second)
qed

text \<open>
  Claim C4, as the code has it. When the bytes generated in a cycle equal
  \<open>previousCaddyfile\<close>, \<open>update\<close> returns false, hands no document to
  \<open>ValidateAndExecuteDirectives\<close>, triggers no reload and leaves the loader's input as it
  was. In particular the second of two cycles that generate the same bytes validates and
  reloads nothing, whatever the first did; and two cycles generate the same bytes
  whenever the directives they write hold the same bindings at every level, after the
  same text \<open>pre\<close> of the Caddyfile and the configs, in whatever order the maps are
  visited.
\<close>

theorem update_unchanged_no_apply:
  assumes "previousCaddyfile dl = caddyfile"
  shows "fst (update P v dl r (caddyfile, logs, None)) = False
         \<and> validated (snd (snd (update P v dl r (caddyfile, logs, None)))) = []
         \<and> ReloadCaddy \<notin> set (snd (snd (update P v dl r (caddyfile, logs, None))))
         \<and> input (fst (snd (update P v dl r (caddyfile, logs, None)))) = input dl
         \<and> validated (snd (snd (update P' v' (fst (snd (update P v dl0 r0 (caddyfile, logs0, None))))
                                    r' (caddyfile, logs', None)))) = []
         \<and> ReloadCaddy \<notin> set (snd (snd (update P' v' (fst (snd (update P v dl0 r0 (caddyfile, logs0, None))))
                                    r' (caddyfile, logs', None))))
         \<and> (wfMap m1 \<and> wfMap m2 \<and> sameMap m1 m2 \<longrightarrow>
              validated (snd (snd (update P' v'
                  (fst (snd (update P v dl0 r0 (pre @ writeDirectives m1 0, logs0, None))))
                  r' (pre @ writeDirectives m2 0, logs', None)))) = []
              \<and> ReloadCaddy \<notin> set (snd (snd (update P' v'
                  (fst (snd (update P v dl0 r0 (pre @ writeDirectives m1 0, logs0, None))))
                  r' (pre @ writeDirectives m2 0, logs', None)))))"
proof -
  have first: "update P v dl r (caddyfile, logs, None)
      = (False, dl\<lparr>skipEvents := False, previousCaddyfile := previousCaddyfile dl, previousLogs := logs\<rparr>,
         TimerReset # (if previousLogs dl \<noteq> logs then [LogPrint logs] else []))"
    using update_unchanged [of P v dl r logs] assms by simp
  have one: "fst (update P v dl r (caddyfile, logs, None)) = False
         \<and> validated (snd (snd (update P v dl r (caddyfile, logs, None)))) = []
         \<and> ReloadCaddy \<notin> set (snd (snd (update P v dl r (caddyfile, logs, None))))
         \<and> input (fst (snd (update P v dl r (caddyfile, logs, None)))) = input dl"
    by (simp add: first)
  have two: "validated (snd (snd (update P' v' (fst (snd (update P v dl0 r0 (caddyfile, logs0, None))))
                                    r' (caddyfile, logs', None)))) = []
         \<and> ReloadCaddy \<notin> set (snd (snd (update P' v' (fst (snd (update P v dl0 r0 (caddyfile, logs0, None))))
                                    r' (caddyfile, logs', None))))"
    by (rule update_second_cycle)
  have three: "wfMap m1 \<and> wfMap m2 \<and> sameMap m1 m2 \<longrightarrow>
              validated (snd (snd (update P' v'
                  (fst (snd (update P v dl0 r0 (pre @ writeDirectives m1 0, logs0, None))))
                  r' (pre @ writeDirectives m2 0, logs', None)))) = []
              \<and> ReloadCaddy \<notin> set (snd (snd (update P' v'
                  (fst (snd (update P v dl0 r0 (pre @ writeDirectives m1 0, logs0, None))))
                  r' (pre @ writeDirectives m2 0, logs', None))))"
  proof
    assume "wfMap m1 \<and> wfMap m2 \<and> sameMap m1 m2"
    then have "writeDirectives m1 0 = writeDirectives m2 0"
      by (intro writeDirectives_same) simp_all
    then show "validated (snd (snd (update P' v'
                  (fst (snd (update P v dl0 r0 (pre @ writeDirectives m1 0, logs0, None))))
                  r' (pre @ writeDirectives m2 0, logs', None)))) = []
              \<and> ReloadCaddy \<notin> set (snd (snd (update P' v'
                  (fst (snd (update P v dl0 r0 (pre @ writeDirectives m1 0, logs0, None))))
                  r' (pre @ writeDirectives m2 0, logs', None))))"
      using update_second_cycle [of P' v' P v dl0 r0 "pre @ writeDirectives m2 0" logs0 r' logs']
      by simp
  qed
  from one two three show ?thesis by blast
qed

theorem update_unchanged_no_apply_witness:
  "fst (update id (\<lambda>d. None) (CreateDockerLoader\<lparr>previousCaddyfile := ''a.com\<newline>''\<rparr>) True
          (''a.com\<newline>'', ''log'', None)) = False
   \<and> validated (snd (snd (update id (\<lambda>d. None) (CreateDockerLoader\<lparr>previousCaddyfile := ''a.com\<newline>''\<rparr>) True
          (''a.com\<newline>'', ''log'', None)))) = []
   \<and> validated (snd (snd (update id (\<lambda>d. None)
          (fst (snd (update id (\<lambda>d. None) CreateDockerLoader True
             ([] @ writeDirectives
                [(''b.com'', DirectiveData ''b.com'' [] []),
                 (''a.com'', DirectiveData ''a.com'' [] [])] 0, ''log'', None))))
          True
          ([] @ writeDirectives
                [(''a.com'', DirectiveData ''a.com'' [] []),
                 (''b.com'', DirectiveData ''b.com'' [] [])] 0, ''log'', None)))) = []
   \<and> validated (snd (snd (update id (\<lambda>d. None) CreateDockerLoader True (''a.com\<newline>'', ''log'', None))))
       = [\<lparr>ServerTypeName = ''http'', Contents = ''a.com\<newline>''\<rparr>]"
proof -
  have prev: "previousCaddyfile (CreateDockerLoader\<lparr>previousCaddyfile := ''a.com\<newline>''\<rparr>) = ''a.com\<newline>''"
    by simp
  have maps: "wfMap [(''b.com'', DirectiveData ''b.com'' [] []), (''a.com'', DirectiveData ''a.com'' [] [])]
      \<and> wfMap [(''a.com'', DirectiveData ''a.com'' [] []), (''b.com'', DirectiveData ''b.com'' [] [])]
      \<and> sameMap [(''b.com'', DirectiveData ''b.com'' [] []), (''a.com'', DirectiveData ''a.com'' [] [])]
                 [(''a.com'', DirectiveData ''a.com'' [] []), (''b.com'', DirectiveData ''b.com'' [] [])]"
    by (simp add: wfMap_def sameMap_def wfDirective_node sameDirective_node insert_commute)
  from update_unchanged_no_apply
         [OF prev, where P = id and v = "\<lambda>d. None" and r = True and logs = "''log''"
            and P' = id and v' = "\<lambda>d. None" and r' = True and logs' = "''log''"
            and ?dl0.0 = CreateDockerLoader and ?r0.0 = True and ?logs0.0 = "''log''"
            and pre = "[]"
            and ?m1.0 = "[(''b.com'', DirectiveData ''b.com'' [] []), (''a.com'', DirectiveData ''a.com'' [] [])]"
            and ?m2.0 = "[(''a.com'', DirectiveData ''a.com'' [] []), (''b.com'', DirectiveData ''b.com'' [] [])]"]
       maps
  have "fst (update id (\<lambda>d. None) (CreateDockerLoader\<lparr>previousCaddyfile := ''a.com\<newline>''\<rparr>) True
          (''a.com\<newline>'', ''log'', None)) = False
   \<and> validated (snd (snd (update id (\<lambda>d. None) (CreateDockerLoader\<lparr>previousCaddyfile := ''a.com\<newline>''\<rparr>) True
          (''a.com\<newline>'', ''log'', None)))) = []
   \<and> validated (snd (snd (update id (\<lambda>d. None)
          (fst (snd (update id (\<lambda>d. None) CreateDockerLoader True
             ([] @ writeDirectives
                [(''b.com'', DirectiveData ''b.com'' [] []),
                 (''a.com'', DirectiveData ''a.com'' [] [])] 0, ''log'', None))))
          True
          ([] @ writeDirectives
                [(''a.com'', DirectiveData ''a.com'' [] []),
                 (''b.com'', DirectiveData ''b.com'' [] [])] 0, ''log'', None)))) = []"
    by blast
  moreover have "validated (snd (snd (update id (\<lambda>d. None) CreateDockerLoader True (''a.com\<newline>'', ''log'', None))))
       = [\<lparr>ServerTypeName = ''http'', Contents = ''a.com\<newline>''\<rparr>]"
    by (simp add: update_def CreateDockerLoader_def Let_def)
  ultimately show ?thesis by blast
qed

text \<open>
  Claim C4 as the spec states it fails: an unchanged set of resources need not generate
  the same bytes. Two containers serve \<open>a.com\<close> with different values of the labels
  \<open>header_0\<close> and \<open>header_1\<close>. Both children of the second are in conflict with the
  first, and both are re-keyed to \<open>header_\<close> followed by the bytes EF BF BD, so the one
  visited last stays. The two maps of the second container below hold the same bindings
  and differ in the order in which the loop of \<open>mergeDirectives\<close> visits them; the bytes
  generated differ, and a cycle that follows the other validates and reloads again.
\<close>

theorem unchanged_resources_apply_again:
  "sameMap
     [(''a.com'', DirectiveData ''a.com'' []
        [(''header_0'', DirectiveData ''header'' [''/'', ''X-C'', ''3''] []),
         (''header_1'', DirectiveData ''header'' [''/'', ''X-D'', ''4''] []),
         (''proxy'', DirectiveData ''proxy'' [''/'', ''10.0.0.6:80''] [])])]
     [(''a.com'', DirectiveData ''a.com'' []
        [(''header_1'', DirectiveData ''header'' [''/'', ''X-D'', ''4''] []),
         (''header_0'', DirectiveData ''header'' [''/'', ''X-C'', ''3''] []),
         (''proxy'', DirectiveData ''proxy'' [''/'', ''10.0.0.6:80''] [])])]
   \<and> containersCaddyfile (\<lambda>i. 4611686018427387904)
       [[(''a.com'', DirectiveData ''a.com'' []
           [(''header_0'', DirectiveData ''header'' [''/'', ''X-A'', ''1''] []),
            (''header_1'', DirectiveData ''header'' [''/'', ''X-B'', ''2''] []),
            (''proxy'', DirectiveData ''proxy'' [''/'', ''10.0.0.5:80''] [])])],
        [(''a.com'', DirectiveData ''a.com'' []
           [(''header_0'', DirectiveData ''header'' [''/'', ''X-C'', ''3''] []),
            (''header_1'', DirectiveData ''header'' [''/'', ''X-D'', ''4''] []),
            (''proxy'', DirectiveData ''proxy'' [''/'', ''10.0.0.6:80''] [])])]]
      = ''a.com {\<newline>  header / X-A 1\<newline>  header / X-B 2\<newline>  header / X-D 4\<newline>  proxy / 10.0.0.5:80 10.0.0.6:80\<newline>}\<newline>''
   \<and> containersCaddyfile (\<lambda>i. 1152921504606846976)
       [[(''a.com'', DirectiveData ''a.com'' []
           [(''header_0'', DirectiveData ''header'' [''/'', ''X-A'', ''1''] []),
            (''header_1'', DirectiveData ''header'' [''/'', ''X-B'', ''2''] []),
            (''proxy'', DirectiveData ''proxy'' [''/'', ''10.0.0.5:80''] [])])],
        [(''a.com'', DirectiveData ''a.com'' []
           [(''header_1'', DirectiveData ''header'' [''/'', ''X-D'', ''4''] []),
            (''header_0'', DirectiveData ''header'' [''/'', ''X-C'', ''3''] []),
            (''proxy'', DirectiveData ''proxy'' [''/'', ''10.0.0.6:80''] [])])]]
      = ''a.com {\<newline>  header / X-A 1\<newline>  header / X-B 2\<newline>  header / X-C 3\<newline>  proxy / 10.0.0.5:80 10.0.0.6:80\<newline>}\<newline>''
   \<and> validated (snd (snd (update id (\<lambda>d. None)
         (fst (snd (update id (\<lambda>d. None) CreateDockerLoader True
            (''a.com {\<newline>  header / X-A 1\<newline>  header / X-B 2\<newline>  header / X-D 4\<newline>  proxy / 10.0.0.5:80 10.0.0.6:80\<newline>}\<newline>'',
             ''log'', None))))
         True
         (''a.com {\<newline>  header / X-A 1\<newline>  header / X-B 2\<newline>  header / X-C 3\<newline>  proxy / 10.0.0.5:80 10.0.0.6:80\<newline>}\<newline>'',
          ''log'', None))))
      = [\<lparr>ServerTypeName = ''http'',
          Contents = ''a.com {\<newline>  header / X-A 1\<newline>  header / X-B 2\<newline>  header / X-C 3\<newline>  proxy / 10.0.0.5:80 10.0.0.6:80\<newline>}\<newline>''\<rparr>]
   \<and> ReloadCaddy \<in> set (snd (snd (update id (\<lambda>d. None)
         (fst (snd (update id (\<lambda>d. None) CreateDockerLoader True
            (''a.com {\<newline>  header / X-A 1\<newline>  header / X-B 2\<newline>  header / X-D 4\<newline>  proxy / 10.0.0.5:80 10.0.0.6:80\<newline>}\<newline>'',
             ''log'', None))))
         True
         (''a.com {\<newline>  header / X-A 1\<newline>  header / X-B 2\<newline>  header / X-C 3\<newline>  proxy / 10.0.0.5:80 10.0.0.6:80\<newline>}\<newline>'',
          ''log'', None))))"
proof -
  have same: "sameMap
     [(''a.com'', DirectiveData ''a.com'' []
        [(''header_0'', DirectiveData ''header'' [''/'', ''X-C'', ''3''] []),
         (''header_1'', DirectiveData ''header'' [''/'', ''X-D'', ''4''] []),
         (''proxy'', DirectiveData ''proxy'' [''/'', ''10.0.0.6:80''] [])])]
     [(''a.com'', DirectiveData ''a.com'' []
        [(''header_1'', DirectiveData ''header'' [''/'', ''X-D'', ''4''] []),
         (''header_0'', DirectiveData ''header'' [''/'', ''X-C'', ''3''] []),
         (''proxy'', DirectiveData ''proxy'' [''/'', ''10.0.0.6:80''] [])])]"
    by (simp add: sameMap_def sameDirective_node insert_commute)
  have merged1: "mergeContainers (\<lambda>i. 4611686018427387904)
       [[(''a.com'', DirectiveData ''a.com'' []
           [(''header_0'', DirectiveData ''header'' [''/'', ''X-A'', ''1''] []),
            (''header_1'', DirectiveData ''header'' [''/'', ''X-B'', ''2''] []),
            (''proxy'', DirectiveData ''proxy'' [''/'', ''10.0.0.5:80''] [])])],
        [(''a.com'', DirectiveData ''a.com'' []
           [(''header_0'', DirectiveData ''header'' [''/'', ''X-C'', ''3''] []),
            (''header_1'', DirectiveData ''header'' [''/'', ''X-D'', ''4''] []),
            (''proxy'', DirectiveData ''proxy'' [''/'', ''10.0.0.6:80''] [])])]]
     = [(''a.com'', DirectiveData ''a.com'' []
           [(''header_0'', DirectiveData ''header'' [''/'', ''X-A'', ''1''] []),
            (''header_1'', DirectiveData ''header'' [''/'', ''X-B'', ''2''] []),
            (''proxy'', DirectiveData ''proxy'' [''/'', ''10.0.0.5:80'', ''10.0.0.6:80''] []),
            (''header_'' @ [CHR 0xEF, CHR 0xBF, CHR 0xBD],
               DirectiveData ''header'' [''/'', ''X-D'', ''4''] [])])]"
    by (simp add: mergeContainers_def mergeInto_def merge_defs suffix_defs)
  have merged2: "mergeContainers (\<lambda>i. 1152921504606846976)
       [[(''a.com'', DirectiveData ''a.com'' []
           [(''header_0'', DirectiveData ''header'' [''/'', ''X-A'', ''1''] []),
            (''header_1'', DirectiveData ''header'' [''/'', ''X-B'', ''2''] []),
            (''proxy'', DirectiveData ''proxy'' [''/'', ''10.0.0.5:80''] [])])],
        [(''a.com'', DirectiveData ''a.com'' []
           [(''header_1'', DirectiveData ''header'' [''/'', ''X-D'', ''4''] []),
            (''header_0'', DirectiveData ''header'' [''/'', ''X-C'', ''3''] []),
            (''proxy'', DirectiveData ''proxy'' [''/'', ''10.0.0.6:80''] [])])]]
     = [(''a.com'', DirectiveData ''a.com'' []
           [(''header_0'', DirectiveData ''header'' [''/'', ''X-A'', ''1''] []),
            (''header_1'', DirectiveData ''header'' [''/'', ''X-B'', ''2''] []),
            (''proxy'', DirectiveData ''proxy'' [''/'', ''10.0.0.5:80'', ''10.0.0.6:80''] []),
            (''header_'' @ [CHR 0xEF, CHR 0xBF, CHR 0xBD],
               DirectiveData ''header'' [''/'', ''X-C'', ''3''] [])])]"
    by (simp add: mergeContainers_def mergeInto_def merge_defs suffix_defs)
  have bytes1: "containersCaddyfile (\<lambda>i. 4611686018427387904)
       [[(''a.com'', DirectiveData ''a.com'' []
           [(''header_0'', DirectiveData ''header'' [''/'', ''X-A'', ''1''] []),
            (''header_1'', DirectiveData ''header'' [''/'', ''X-B'', ''2''] []),
            (''proxy'', DirectiveData ''proxy'' [''/'', ''10.0.0.5:80''] [])])],
        [(''a.com'', DirectiveData ''a.com'' []
           [(''header_0'', DirectiveData ''header'' [''/'', ''X-C'', ''3''] []),
            (''header_1'', DirectiveData ''header'' [''/'', ''X-D'', ''4''] []),
            (''proxy'', DirectiveData ''proxy'' [''/'', ''10.0.0.6:80''] [])])]]
      = ''a.com {\<newline>  header / X-A 1\<newline>  header / X-B 2\<newline>  header / X-D 4\<newline>  proxy / 10.0.0.5:80 10.0.0.6:80\<newline>}\<newline>''"
    unfolding containersCaddyfile_def merged1
    by (simp add: writeDirectives.simps writeDirective_node getSortedKeys_def getKeys_def
                  enumerate_eq_zip upt_rec numeral_2_eq_2)
  have bytes2: "containersCaddyfile (\<lambda>i. 1152921504606846976)
       [[(''a.com'', DirectiveData ''a.com'' []
           [(''header_0'', DirectiveData ''header'' [''/'', ''X-A'', ''1''] []),
            (''header_1'', DirectiveData ''header'' [''/'', ''X-B'', ''2''] []),
            (''proxy'', DirectiveData ''proxy'' [''/'', ''10.0.0.5:80''] [])])],
        [(''a.com'', DirectiveData ''a.com'' []
           [(''header_1'', DirectiveData ''header'' [''/'', ''X-D'', ''4''] []),
            (''header_0'', DirectiveData ''header'' [''/'', ''X-C'', ''3''] []),
            (''proxy'', DirectiveData ''proxy'' [''/'', ''10.0.0.6:80''] [])])]]
      = ''a.com {\<newline>  header / X-A 1\<newline>  header / X-B 2\<newline>  header / X-C 3\<newline>  proxy / 10.0.0.5:80 10.0.0.6:80\<newline>}\<newline>''"
    unfolding containersCaddyfile_def merged2
    by (simp add: writeDirectives.simps writeDirective_node getSortedKeys_def getKeys_def
                  enumerate_eq_zip upt_rec numeral_2_eq_2)
  have again: "validated (snd (snd (update id (\<lambda>d. None)
         (fst (snd (update id (\<lambda>d. None) CreateDockerLoader True
            (''a.com {\<newline>  header / X-A 1\<newline>  header / X-B 2\<newline>  header / X-D 4\<newline>  proxy / 10.0.0.5:80 10.0.0.6:80\<newline>}\<newline>'',
             ''log'', None))))
         True
         (''a.com {\<newline>  header / X-A 1\<newline>  header / X-B 2\<newline>  header / X-C 3\<newline>  proxy / 10.0.0.5:80 10.0.0.6:80\<newline>}\<newline>'',
          ''log'', None))))
      = [\<lparr>ServerTypeName = ''http'',
          Contents = ''a.com {\<newline>  header / X-A 1\<newline>  header / X-B 2\<newline>  header / X-C 3\<newline>  proxy / 10.0.0.5:80 10.0.0.6:80\<newline>}\<newline>''\<rparr>]"
    by (simp add: update_def CreateDockerLoader_def Let_def)
  have reload: "ReloadCaddy \<in> set (snd (snd (update id (\<lambda>d. None)
         (fst (snd (update id (\<lambda>d. None) CreateDockerLoader True
            (''a.com {\<newline>  header / X-A 1\<newline>  header / X-B 2\<newline>  header / X-D 4\<newline>  proxy / 10.0.0.5:80 10.0.0.6:80\<newline>}\<newline>'',
             ''log'', None))))
         True
         (''a.com {\<newline>  header / X-A 1\<newline>  header / X-B 2\<newline>  header / X-C 3\<newline>  proxy / 10.0.0.5:80 10.0.0.6:80\<newline>}\<newline>'',
          ''log'', None))))"
    by (simp add: update_def CreateDockerLoader_def Let_def)
  from same bytes1 bytes2 again reload show ?thesis by blast
qed

end
